theory Spec2Isabelle
  imports Complex_Main "HOL-Library.Word"
begin

unbundle bit_operations_syntax

section \<open>Machine types and byte helpers\<close>

text \<open>
  The C++ sources use \<open>uint8_t\<close>, \<open>uint32_t\<close>, \<open>uint64_t\<close>/\<open>size_t\<close> (64-bit
  targets) and \<open>int\<close>. They are modelled as words of the same width, so every
  addition, subtraction and multiplication wraps as it does in the program.
\<close>

type_synonym u8 = "8 word"
type_synonym u32 = "32 word"
type_synonym u64 = "64 word"

text \<open>The bytes of a C string literal.\<close>

definition cstr :: "string \<Rightarrow> u8 list" where
  "cstr s = map of_char s"

text \<open>
  The four \<open>push_back\<close> calls that append a 32-bit value byte by byte:
  \<open>x & 0xFF\<close>, \<open>(x >> 8) & 0xFF\<close>, \<open>(x >> 16) & 0xFF\<close>, \<open>(x >> 24) & 0xFF\<close>.
\<close>

definition push_u32 :: "u32 \<Rightarrow> u8 list" where
  "push_u32 x =
     [ucast (x AND 0xFF), ucast (drop_bit 8 x AND 0xFF),
      ucast (drop_bit 16 x AND 0xFF), ucast (drop_bit 24 x AND 0xFF)]"

text \<open>Reading a little-endian field back, used to state what a header holds.\<close>

definition read_le :: "u8 list \<Rightarrow> nat" where
  "read_le bs = foldr (\<lambda>b acc. unat b + 256 * acc) bs 0"


section \<open>Pipeline configuration (ultra_streaming_pipeline.cc)\<close>

record PipelineConfig =
  chunk_width :: u32
  chunk_height :: u32
  max_memory_usage_mb :: u64
  compression_level :: u32
  worker_thread_count :: u32

text \<open>
  \<open>compression_level_\<close> is a C++ \<open>int\<close>: the field holds its 32-bit two's complement
  pattern and is compared with the signed orders \<open>\<le>s\<close> and \<open><s\<close>.

  The member initialisers of the class.
\<close>

definition default_config :: PipelineConfig where
  "default_config =
     \<lparr> chunk_width = 512, chunk_height = 512, max_memory_usage_mb = 1024,
       compression_level = 6, worker_thread_count = 0 \<rparr>"

text \<open>\<open>std::clamp(v, lo, hi)\<close> on \<open>int\<close>: \<open>(v < lo) ? lo : (hi < v) ? hi : v\<close>.\<close>

definition clamp_int :: "u32 \<Rightarrow> u32 \<Rightarrow> u32 \<Rightarrow> u32" where
  "clamp_int v lo hi = (if v <s lo then lo else if hi <s v then hi else v)"

definition SetChunkSize :: "u32 \<Rightarrow> u32 \<Rightarrow> PipelineConfig \<Rightarrow> PipelineConfig" where
  "SetChunkSize width height p =
     p\<lparr> chunk_width := max 64 width, chunk_height := max 64 height \<rparr>"

definition SetMaxMemoryUsage :: "u64 \<Rightarrow> PipelineConfig \<Rightarrow> PipelineConfig" where
  "SetMaxMemoryUsage max_memory_mb p = p\<lparr> max_memory_usage_mb := max 256 max_memory_mb \<rparr>"

definition SetCompressionLevel :: "u32 \<Rightarrow> PipelineConfig \<Rightarrow> PipelineConfig" where
  "SetCompressionLevel level p = p\<lparr> compression_level := clamp_int level 1 9 \<rparr>"

text \<open>
  \<open>Initialize(worker_threads)\<close>: zero asks for \<open>max(2, hardware_concurrency())\<close>; the
  hardware value is a parameter of the model. It starts that many worker threads; the
  stored count stands for them (\<open>has_workers\<close> below).
\<close>

definition Initialize :: "u32 \<Rightarrow> u32 \<Rightarrow> PipelineConfig \<Rightarrow> PipelineConfig" where
  "Initialize hardware_concurrency worker_threads p =
     p\<lparr> worker_thread_count :=
           (if worker_threads = 0 then max 2 hardware_concurrency else worker_threads) \<rparr>"

text \<open>
  The global \<open>g_streaming_pipeline\<close> is \<open>None\<close> until first use.
  \<open>InitializeUltraStreaming\<close> creates it when absent and always calls \<open>Initialize\<close>.
\<close>

definition InitializeUltraStreaming ::
  "u32 \<Rightarrow> u32 \<Rightarrow> PipelineConfig option \<Rightarrow> PipelineConfig" where
  "InitializeUltraStreaming hardware_concurrency worker_threads g =
     Initialize hardware_concurrency worker_threads
       (case g of None \<Rightarrow> default_config | Some p \<Rightarrow> p)"

definition ConfigureUltraStreaming ::
  "u32 \<Rightarrow> PipelineConfig option \<Rightarrow> u32 \<Rightarrow> u32 \<Rightarrow> u64 \<Rightarrow> u32 \<Rightarrow> PipelineConfig" where
  "ConfigureUltraStreaming hardware_concurrency g cw ch max_memory_mb level =
     (let p = (case g of None \<Rightarrow> InitializeUltraStreaming hardware_concurrency 0 g
                       | Some p \<Rightarrow> p)
      in SetCompressionLevel level (SetMaxMemoryUsage max_memory_mb (SetChunkSize cw ch p)))"


section \<open>The WebP encoder wrapper (webp_encoder.cc)\<close>

text \<open>
  \<open>WebPEncodeParams\<close>, field by field (\<open>method\<close> is named \<open>encode_method\<close>). The
  two \<open>float\<close> fields hold their IEEE-754 bit patterns; no arithmetic is done on them
  in the code modelled here.
\<close>

record WebPEncodeParams =
  quality :: u32
  encode_method :: u32
  target_size :: u32
  target_psnr :: u32
  segments :: u32
  sns_strength :: u32
  filter_strength :: u32
  filter_sharpness :: u32
  filter_type :: u32
  autofilter :: u32
  alpha_compression :: u32
  alpha_filtering :: u32
  alpha_quality :: u32
  pass :: u32
  show_compressed :: u32
  preprocessing :: u32
  partitions :: u32
  partition_limit :: u32
  emulate_jpeg_size :: u32
  thread_level :: u32
  low_memory :: u32
  near_lossless :: u32
  exact :: u32
  use_delta_palette :: u32
  use_sharp_yuv :: u32
  enable_multithreading :: bool
  max_threads :: u32
  enable_streaming :: bool
  stream_buffer_size :: u32

text \<open>The encoder object holds only \<open>last_error_\<close>.\<close>

record WebPEncoder =
  last_error :: string

text \<open>
  The loop that appends the placeholder payload:
  \<open>for (i = 0; i < imageDataSize && result.size() < 1000000; ++i) result.push_back(i % 256)\<close>.
  Each round makes \<open>result\<close> one byte longer, which bounds the number of rounds.
\<close>

function placeholder_loop :: "u32 \<Rightarrow> u32 \<Rightarrow> u8 list \<Rightarrow> u8 list" where
  "placeholder_loop i imageDataSize result =
     (if i < imageDataSize \<and> length result < 1000000
      then placeholder_loop (i + 1) imageDataSize (result @ [ucast (i mod 256)])
      else result)"
  by pat_completeness auto
termination
  by (relation "measure (\<lambda>(i, n, result). 1000000 - length result)") auto

declare placeholder_loop.simps [simp del]

text \<open>
  \<open>EncodeInternal\<close>. A pointer argument is \<open>None\<close> when null and otherwise the bytes it
  points to. The function returns the output vector together with the encoder, whose
  \<open>last_error_\<close> it rewrites. The diagnostic line written to \<open>std::cout\<close> is not modelled.
\<close>

definition EncodeInternal ::
  "WebPEncoder \<Rightarrow> u8 list option \<Rightarrow> u32 \<Rightarrow> u32 \<Rightarrow> u32 \<Rightarrow> bool \<Rightarrow> WebPEncodeParams
     \<Rightarrow> u8 list \<times> WebPEncoder" where
  "EncodeInternal enc data width height stride has_alpha params =
     (let enc = enc\<lparr> last_error := [] \<rparr> in
      if data = None then ([], enc\<lparr> last_error := ''Input data is null'' \<rparr>)
      else if width = 0 \<or> height = 0 then ([], enc\<lparr> last_error := ''Invalid dimensions'' \<rparr>)
      else
        let result = cstr ''RIFF'';
            fileSize = width * height + 100;
            result = result @ push_u32 fileSize;
            result = result @ cstr ''WEBP'';
            result = result @ cstr ''VP8 '';
            imageDataSize = width * height div 10;
            result = result @ push_u32 imageDataSize;
            result = placeholder_loop 0 imageDataSize result
        in (result, enc))"

definition EncodeRGBA ::
  "WebPEncoder \<Rightarrow> u8 list option \<Rightarrow> u32 \<Rightarrow> u32 \<Rightarrow> u32 \<Rightarrow> WebPEncodeParams
     \<Rightarrow> u8 list \<times> WebPEncoder" where
  "EncodeRGBA enc rgba_data width height stride params =
     EncodeInternal enc rgba_data width height stride True params"

definition EncodeRGB ::
  "WebPEncoder \<Rightarrow> u8 list option \<Rightarrow> u32 \<Rightarrow> u32 \<Rightarrow> u32 \<Rightarrow> WebPEncodeParams
     \<Rightarrow> u8 list \<times> WebPEncoder" where
  "EncodeRGB enc rgb_data width height stride params =
     EncodeInternal enc rgb_data width height stride False params"


section \<open>Combining encoded payloads into a container\<close>

text \<open>
  \<open>std::memcpy(buf.data() + off, &v, 4)\<close> for a \<open>uint32_t v\<close>. The targets of the
  repository (x86, x86-64, ARM) store the least significant byte first. Both call sites
  write inside the buffer.
\<close>

definition memcpy_u32 :: "u8 list \<Rightarrow> nat \<Rightarrow> u32 \<Rightarrow> u8 list" where
  "memcpy_u32 buf off v =
     buf[off := ucast (v AND 0xFF), off + 1 := ucast (drop_bit 8 v AND 0xFF),
         off + 2 := ucast (drop_bit 16 v AND 0xFF), off + 3 := ucast (drop_bit 24 v AND 0xFF)]"

text \<open>
  \<open>UltraStreamingPipeline::CombineEncodedChunks\<close> (ultra_streaming_pipeline.cc). The
  header literal is \<open>"RIFF\0\0\0\0WEBP"\<close>, of which twelve bytes are inserted.
  \<open>total_size\<close> only feeds \<open>reserve\<close>. The size is \<open>static_cast<uint32_t>(size() - 8)\<close>.
\<close>

definition CombineEncodedChunks :: "u8 list list \<Rightarrow> u32 \<Rightarrow> u32 \<Rightarrow> u8 list" where
  "CombineEncodedChunks encoded_chunks total_width total_height =
     (let combined_result = [];
          total_size = foldl (\<lambda>n chunk. n + (of_nat (length chunk) :: u64)) 0 encoded_chunks;
          webp_header = cstr ''RIFF'' @ [0, 0, 0, 0] @ cstr ''WEBP'';
          combined_result = combined_result @ take 12 webp_header;
          combined_result = foldl (\<lambda>r chunk. r @ chunk) combined_result encoded_chunks;
          file_size = (of_nat (length combined_result - 8) :: u32)
      in memcpy_u32 combined_result 4 file_size)"

text \<open>
  Modelled from the spec: \<open>WebPEncoder::TileInfo\<close> is only forward-declared in
  screenshot_common.h; the one member \<open>CombineEncodedTiles\<close> reads is \<open>encoded_data\<close>,
  the tile's compressed bytes.
\<close>

record TileInfo =
  encoded_data :: "u8 list"

text \<open>Three \<open>push_back\<close> calls for a 24-bit field: \<open>x & 0xFF\<close>, \<open>(x >> 8) & 0xFF\<close>,
  \<open>(x >> 16) & 0xFF\<close>.\<close>

definition push_u24 :: "u32 \<Rightarrow> u8 list" where
  "push_u24 x =
     [ucast (x AND 0xFF), ucast (drop_bit 8 x AND 0xFF), ucast (drop_bit 16 x AND 0xFF)]"

text \<open>
  \<open>WebPEncoder::CombineEncodedTiles\<close> (webp_encoder.cc). \<open>totalSize\<close> is a \<open>uint32_t\<close>
  that accumulates the \<open>size_t\<close> lengths, so the sum is kept modulo \<open>2^32\<close>.
\<close>

definition CombineEncodedTiles :: "TileInfo list \<Rightarrow> u32 \<Rightarrow> u32 \<Rightarrow> bool \<Rightarrow> u8 list" where
  "CombineEncodedTiles tiles total_width total_height has_alpha =
     (let combined = cstr ''RIFF'';
          totalSize = foldl (\<lambda>n tile. n + (of_nat (length (encoded_data tile)) :: u32)) 0 tiles;
          totalSize = totalSize + 100;
          combined = combined @ push_u32 totalSize;
          combined = combined @ cstr ''WEBP'';
          combined = combined @ cstr ''VP8X'';
          vp8x_size = (10 :: u32);
          combined = combined @ push_u32 vp8x_size;
          flags = (if has_alpha then 0x10 else 0x00 :: u8);
          combined = combined @ [flags];
          combined = combined @ [0];
          combined = combined @ [0];
          combined = combined @ [0];
          combined = combined @ push_u24 (total_width - 1);
          combined = combined @ push_u24 (total_height - 1)
      in foldl (\<lambda>r tile. r @ encoded_data tile) combined tiles)"

text \<open>
  The container the specification describes, in its own words: the fixed magic, a size
  field equal to the length minus eight, an extended-canvas record carrying
  \<open>canvasWidth - 1\<close> and \<open>canvasHeight - 1\<close> as 24-bit fields, and the payloads appended
  in order. For the record only the two dimension fields are required here, anywhere in
  the output, which is the weakest reading of "contains".
\<close>

definition contains_bytes :: "u8 list \<Rightarrow> u8 list \<Rightarrow> bool" where
  "contains_bytes out rec =
     list_ex (\<lambda>i. take (length rec) (drop i out) = rec) [0 ..< Suc (length out)]"

definition spec_container :: "u8 list \<Rightarrow> u8 list list \<Rightarrow> u32 \<Rightarrow> u32 \<Rightarrow> bool" where
  "spec_container out payloads canvasWidth canvasHeight \<longleftrightarrow>
     take 4 out = cstr ''RIFF'' \<and> take 4 (drop 8 out) = cstr ''WEBP'' \<and>
     read_le (take 4 (drop 4 out)) = length out - 8 \<and>
     contains_bytes out (push_u24 (canvasWidth - 1) @ push_u24 (canvasHeight - 1)) \<and>
     drop (length out - length (concat payloads)) out = concat payloads"


section \<open>The buffer pool (memory_pool.cc, screenshot_common.h)\<close>

text \<open>
  A \<open>std::unique_ptr<uint8_t[]>\<close> is modelled by the address it owns (\<open>None\<close> for a null
  pointer where the code tests for one). \<open>BufferInfo::size\<close> is named \<open>buf_size\<close> here.
\<close>

type_synonym addr = nat

record BufferInfo =
  buffer :: addr
  buf_size :: u64
  last_used_time :: u64

record PoolStats =
  available_buffers :: u64
  total_buffers_created :: u64
  total_memory_allocated :: u64
  peak_memory_usage :: u64
  memory_reuse_count :: u64

text \<open>The pool object: the vector \<open>available_buffers_\<close> and \<open>stats_\<close>. The mutex serialises
  the member functions, each of which is modelled as one atomic state change.\<close>

record ScreenshotMemoryPool =
  buffers :: "BufferInfo list"
  stats :: PoolStats

definition MAX_POOL_SIZE :: nat where
  "MAX_POOL_SIZE = 10"

definition BUFFER_TIMEOUT_MS :: u64 where
  "BUFFER_TIMEOUT_MS = 60000"

definition SIZE_MAX :: u64 where
  "SIZE_MAX = - 1"

text \<open>The constructor.\<close>

definition new_pool :: ScreenshotMemoryPool where
  "new_pool =
     \<lparr> buffers = [],
       stats = \<lparr> available_buffers = 0, total_buffers_created = 0,
                 total_memory_allocated = 0, peak_memory_usage = 0, memory_reuse_count = 0 \<rparr> \<rparr>"

text \<open>
  \<open>CleanupExpiredBuffers\<close>: \<open>remove_if\<close> and \<open>erase\<close> keep the surviving entries in
  order. \<open>current_time\<close> is the clock reading in milliseconds; the subtraction is unsigned.
\<close>

definition CleanupExpiredBuffers :: "u64 \<Rightarrow> ScreenshotMemoryPool \<Rightarrow> ScreenshotMemoryPool" where
  "CleanupExpiredBuffers current_time p =
     (let bs = filter (\<lambda>buf_info. \<not> (current_time - last_used_time buf_info > BUFFER_TIMEOUT_MS))
                 (buffers p)
      in p\<lparr> buffers := bs, stats := (stats p)\<lparr> available_buffers := of_nat (length bs) \<rparr> \<rparr>)"

text \<open>
  The search loop of \<open>FindBestFitBuffer\<close>, from index \<open>i\<close> on. \<open>best_fit_index\<close> is
  \<open>None\<close> while it holds the value \<open>SIZE_MAX\<close>, which no index of a vector reaches;
  \<open>best_fit_size\<close> is the \<open>size_t\<close> of the code and starts at \<open>SIZE_MAX\<close>. An exact
  fit leaves the loop at once.
\<close>

function best_fit_loop ::
  "BufferInfo list \<Rightarrow> u64 \<Rightarrow> nat \<Rightarrow> nat option \<Rightarrow> u64 \<Rightarrow> nat option" where
  "best_fit_loop bufs required_size i best_fit_index best_fit_size =
     (if i < length bufs then
        (if buf_size (bufs ! i) \<ge> required_size then
           (if buf_size (bufs ! i) < best_fit_size then
              (if buf_size (bufs ! i) = required_size then Some i
               else best_fit_loop bufs required_size (i + 1) (Some i) (buf_size (bufs ! i)))
            else best_fit_loop bufs required_size (i + 1) best_fit_index best_fit_size)
         else best_fit_loop bufs required_size (i + 1) best_fit_index best_fit_size)
      else best_fit_index)"
  by pat_completeness auto
termination
  by (relation "measure (\<lambda>(bufs, r, i, bi, bs). length bufs - i)") auto

declare best_fit_loop.simps [simp del]

definition FindBestFitBuffer :: "BufferInfo list \<Rightarrow> u64 \<Rightarrow> nat option" where
  "FindBestFitBuffer bufs required_size = best_fit_loop bufs required_size 0 None SIZE_MAX"

text \<open>\<open>vector::erase\<close> of the element at one position.\<close>

definition erase_at :: "nat \<Rightarrow> 'a list \<Rightarrow> 'a list" where
  "erase_at i xs = take i xs @ drop (Suc i) xs"

datatype pool_error = BadAlloc

text \<open>
  \<open>GetBuffer\<close>. \<open>current_time\<close> is the clock reading taken by the cleanup. \<open>alloc\<close>
  stands for \<open>std::make_unique<uint8_t[]>(size)\<close>: it yields the address of a new array
  or \<open>None\<close> when \<open>std::bad_alloc\<close> is thrown, which leaves \<open>GetBuffer\<close> after the
  cleanup and before any statistic is touched.
\<close>

definition GetBuffer ::
  "u64 \<Rightarrow> (u64 \<Rightarrow> addr option) \<Rightarrow> u64 \<Rightarrow> ScreenshotMemoryPool
     \<Rightarrow> (pool_error + addr) \<times> ScreenshotMemoryPool" where
  "GetBuffer current_time alloc sz p0 =
     (let p = CleanupExpiredBuffers current_time p0 in
      case FindBestFitBuffer (buffers p) sz of
        Some best_fit_index \<Rightarrow>
          (let buf = buffer (buffers p ! best_fit_index);
               bs = erase_at best_fit_index (buffers p)
           in (Inr buf,
               p\<lparr> buffers := bs,
                  stats := (stats p)\<lparr> available_buffers := of_nat (length bs),
                                      memory_reuse_count := memory_reuse_count (stats p) + 1 \<rparr> \<rparr>))
      | None \<Rightarrow>
          (case alloc sz of
             None \<Rightarrow> (Inl BadAlloc, p)
           | Some buf \<Rightarrow>
               (let st = (stats p)\<lparr> total_buffers_created := total_buffers_created (stats p) + 1,
                                    total_memory_allocated := total_memory_allocated (stats p) + sz \<rparr>;
                    current_memory = foldl (\<lambda>m buf_info. m + buf_size buf_info)
                                       (total_memory_allocated st) (buffers p);
                    st = (if current_memory > peak_memory_usage st
                          then st\<lparr> peak_memory_usage := current_memory \<rparr> else st)
                in (Inr buf, p\<lparr> stats := st \<rparr>))))"

text \<open>
  \<open>std::min_element\<close> with the comparator \<open>a.last_used_time < b.last_used_time\<close>: the
  scan keeps the first entry that no later one is strictly older than.
\<close>

function min_element_loop :: "BufferInfo list \<Rightarrow> nat \<Rightarrow> nat \<Rightarrow> nat" where
  "min_element_loop bufs i smallest =
     (if i < length bufs then
        min_element_loop bufs (i + 1)
          (if last_used_time (bufs ! i) < last_used_time (bufs ! smallest) then i else smallest)
      else smallest)"
  by pat_completeness auto
termination
  by (relation "measure (\<lambda>(bufs, i, s). length bufs - i)") auto

declare min_element_loop.simps [simp del]

text \<open>The iterator result: \<open>None\<close> is \<open>end()\<close>, returned for an empty vector only.\<close>

definition min_element :: "BufferInfo list \<Rightarrow> nat option" where
  "min_element bufs = (if bufs = [] then None else Some (min_element_loop bufs 1 0))"

text \<open>\<open>ReturnBuffer\<close>; \<open>current_time\<close> is the clock reading that stamps the entry.\<close>

definition ReturnBuffer ::
  "u64 \<Rightarrow> addr option \<Rightarrow> u64 \<Rightarrow> ScreenshotMemoryPool \<Rightarrow> ScreenshotMemoryPool" where
  "ReturnBuffer current_time buf sz p =
     (case buf of
        None \<Rightarrow> p
      | Some a \<Rightarrow>
          (let bs = buffers p;
               bs = (if length bs \<ge> MAX_POOL_SIZE then
                       (case min_element bs of
                          Some oldest_it \<Rightarrow> erase_at oldest_it bs
                        | None \<Rightarrow> bs)
                     else bs);
               buf_info = \<lparr> buffer = a, buf_size = sz, last_used_time = 0 \<rparr>;
               buf_info = buf_info\<lparr> last_used_time := current_time \<rparr>;
               bs = bs @ [buf_info]
           in p\<lparr> buffers := bs,
                stats := (stats p)\<lparr> available_buffers := of_nat (length bs) \<rparr> \<rparr>))"

definition Clear :: "ScreenshotMemoryPool \<Rightarrow> ScreenshotMemoryPool" where
  "Clear p = p\<lparr> buffers := [], stats := (stats p)\<lparr> available_buffers := 0 \<rparr> \<rparr>"

text \<open>A call of the pool's interface, with the environment's answers it consumes, and
  the pool after a sequence of calls.\<close>

datatype pool_call =
    CallGetBuffer u64 "u64 \<Rightarrow> addr option" u64
  | CallReturnBuffer u64 "addr option" u64
  | CallClear

fun pool_step :: "ScreenshotMemoryPool \<Rightarrow> pool_call \<Rightarrow> ScreenshotMemoryPool" where
  "pool_step p (CallGetBuffer t alloc sz) = snd (GetBuffer t alloc sz p)"
| "pool_step p (CallReturnBuffer t buf sz) = ReturnBuffer t buf sz p"
| "pool_step p CallClear = Clear p"

definition pool_run :: "pool_call list \<Rightarrow> ScreenshotMemoryPool \<Rightarrow> ScreenshotMemoryPool" where
  "pool_run calls p = foldl pool_step p calls"


text \<open>
  What "best fit" means for a request of \<open>r\<close> bytes, stated on indices of the idle list:
  entry \<open>j\<close> is a candidate when its capacity is at least \<open>r\<close>; entry \<open>k\<close> is the best fit
  when it is a candidate, no candidate is smaller, and every candidate before it is
  strictly larger (the first of the smallest).
\<close>

definition candidate :: "BufferInfo list \<Rightarrow> u64 \<Rightarrow> nat \<Rightarrow> bool" where
  "candidate bs r j \<longleftrightarrow> j < length bs \<and> r \<le> buf_size (bs ! j)"

definition best_fit :: "BufferInfo list \<Rightarrow> u64 \<Rightarrow> nat \<Rightarrow> bool" where
  "best_fit bs r k \<longleftrightarrow>
     candidate bs r k \<and>
     (\<forall>j < length bs. candidate bs r j \<longrightarrow> buf_size (bs ! k) \<le> buf_size (bs ! j)) \<and>
     (\<forall>j < k. candidate bs r j \<longrightarrow> buf_size (bs ! k) < buf_size (bs ! j))"

text \<open>
  The capacity of every idle buffer is the size of an array that exists. No array has
  \<open>SIZE_MAX\<close> bytes: \<open>std::make_unique<uint8_t[]>(SIZE_MAX)\<close> cannot succeed, and the
  callers in this repository hand a buffer back with the size they asked \<open>GetBuffer\<close>
  for, a product of 32-bit values.
\<close>

definition capacities_exist :: "BufferInfo list \<Rightarrow> bool" where
  "capacities_exist bs \<longleftrightarrow> list_all (\<lambda>b. buf_size b < SIZE_MAX) bs"

text \<open>Entry \<open>k\<close> is the least recently used one: nothing is older, and everything
  before it is strictly younger.\<close>

definition least_recently_used :: "BufferInfo list \<Rightarrow> nat \<Rightarrow> bool" where
  "least_recently_used bs k \<longleftrightarrow>
     k < length bs \<and>
     (\<forall>j < length bs. last_used_time (bs ! k) \<le> last_used_time (bs ! j)) \<and>
     (\<forall>j < k. last_used_time (bs ! k) < last_used_time (bs ! j))"


text \<open>A pool holding ten idle buffers of 100 bytes, stamped at times 1 to 10, on which
  the statements about a full pool are exercised.\<close>

definition full_pool :: ScreenshotMemoryPool where
  "full_pool =
     new_pool\<lparr> buffers :=
       map (\<lambda>i. \<lparr> buffer = i, buf_size = 100, last_used_time = of_nat i \<rparr>)
         [1, 2, 3, 4, 5, 6, 7, 8, 9, 10] \<rparr>"


section \<open>Frames and chunks (screenshot_common.h, ultra_streaming_pipeline.cc)\<close>

text \<open>
  \<open>ScreenshotResult\<close>: \<open>data\<close> is the owned pixel buffer, \<open>None\<close> when the pointer is
  null. \<open>StreamingChunk\<close> owns a copy of its pixels. The two records share field names,
  which are therefore written qualified.
\<close>

record ScreenshotResult =
  data :: "u8 list option"
  width :: u32
  height :: u32
  stride :: u32
  bytes_per_pixel :: u32
  data_size :: u32
  success :: bool
  error_message :: string
  format :: string
  implementation :: string

record StreamingChunk =
  pixel_data :: "u8 list"
  width :: u32
  height :: u32
  stride :: u32
  x_offset :: u32
  y_offset :: u32
  chunk_id :: u32
  is_final_chunk :: bool

text \<open>
  \<open>std::memcpy(dst_row, src_row, n)\<close> seen from the source side: the \<open>n\<close> bytes at
  offset \<open>off\<close> of the frame buffer. Reading past the end of the buffer, or through a
  null pointer, is undefined in C++; the model returns the bytes that exist.
\<close>

definition read_bytes :: "u8 list option \<Rightarrow> nat \<Rightarrow> nat \<Rightarrow> u8 list" where
  "read_bytes d off n = take n (drop off (case d of None \<Rightarrow> [] | Some bs \<Rightarrow> bs))"

text \<open>
  The body of the inner loop of \<open>CreateChunks\<close> for tile column \<open>x\<close> and tile row \<open>y\<close>.
  All offsets and sizes are computed in \<open>uint32_t\<close>. The row loop copies
  \<open>chunk.stride\<close> bytes per row from
  \<open>data + (y_offset + row) * stride + x_offset * bytes_per_pixel\<close>; the destination
  rows are adjacent (\<open>row * chunk.stride\<close> stays far below \<open>2^32\<close> for any chunk that
  fits in memory), so the chunk's buffer is their concatenation. The buffer itself is
  taken from the global pool (\<open>GetBuffer\<close> above); that bookkeeping, and an allocation
  failure in it, are not repeated here.
\<close>

definition make_chunk ::
  "PipelineConfig \<Rightarrow> ScreenshotResult \<Rightarrow> u32 \<Rightarrow> u32 \<Rightarrow> u32 \<Rightarrow> u32 \<Rightarrow> u32 \<Rightarrow> StreamingChunk" where
  "make_chunk cfg screenshot chunks_x chunks_y x y cid =
     (let xo = x * chunk_width cfg;
          yo = y * chunk_height cfg;
          w = min (chunk_width cfg) (ScreenshotResult.width screenshot - xo);
          h = min (chunk_height cfg) (ScreenshotResult.height screenshot - yo);
          st = w * bytes_per_pixel screenshot;
          final = (x = chunks_x - 1 \<and> y = chunks_y - 1);
          pixels = concat (map (\<lambda>row.
                      read_bytes (data screenshot)
                        (unat ((yo + of_nat row) * ScreenshotResult.stride screenshot)
                           + unat (xo * bytes_per_pixel screenshot))
                        (unat st))
                    [0 ..< unat h])
      in \<lparr> pixel_data = pixels, width = w, height = h, stride = st,
           x_offset = xo, y_offset = yo, chunk_id = cid, is_final_chunk = final \<rparr>)"

text \<open>
  \<open>CreateChunks\<close>: the two counted loops over tile rows and tile columns, threading the
  vector of chunks and the running \<open>chunk_id\<close>.
\<close>

definition CreateChunks :: "PipelineConfig \<Rightarrow> ScreenshotResult \<Rightarrow> StreamingChunk list" where
  "CreateChunks cfg screenshot =
     (let chunks_x = (ScreenshotResult.width screenshot + chunk_width cfg - 1) div chunk_width cfg;
          chunks_y = (ScreenshotResult.height screenshot + chunk_height cfg - 1) div chunk_height cfg
      in fst (foldl (\<lambda>(chunks, cid) y.
                foldl (\<lambda>(chunks, cid) x.
                    (chunks @ [make_chunk cfg screenshot chunks_x chunks_y (of_nat x) (of_nat y) cid],
                     cid + 1))
                  (chunks, cid) [0 ..< unat chunks_x])
              ([], 0) [0 ..< unat chunks_y]))"

text \<open>
  The pixels a chunk claims: columns \<open>x_offset \<le> px < x_offset + width\<close> and rows
  \<open>y_offset \<le> py < y_offset + height\<close>, as natural numbers.
\<close>

definition covers :: "StreamingChunk \<Rightarrow> nat \<Rightarrow> nat \<Rightarrow> bool" where
  "covers c px py \<longleftrightarrow>
     unat (x_offset c) \<le> px \<and> px < unat (x_offset c) + unat (StreamingChunk.width c) \<and>
     unat (y_offset c) \<le> py \<and> py < unat (y_offset c) + unat (StreamingChunk.height c)"

text \<open>The number of tiles along one axis that the specification asks for.\<close>

definition ceil_div :: "nat \<Rightarrow> nat \<Rightarrow> nat" where
  "ceil_div a b = (a + b - 1) div b"

text \<open>An 8K frame of four bytes per pixel, as a capture backend delivers it.\<close>

definition frame_8k :: ScreenshotResult where
  "frame_8k =
     \<lparr> data = Some (replicate (7680 * 4320 * 4) 0), width = 7680, height = 4320,
       stride = 30720, bytes_per_pixel = 4, data_size = 132710400, success = True,
       error_message = [], format = ''RGBA'', implementation = ''model'' \<rparr>"


section \<open>The streaming pipeline, seen from the submitting thread\<close>

text \<open>\<open>std::to_string\<close> on an unsigned count.\<close>

fun to_string :: "nat \<Rightarrow> string" where
  "to_string n =
     (if n < 10 then [char_of (48 + n)] else to_string (n div 10) @ [char_of (48 + n mod 10)])"

declare to_string.simps [simp del]

text \<open>
  \<open>StreamingProgressCallback\<close> is a \<open>std::function<bool(double, const std::string&)>\<close>,
  possibly empty. The percentage is modelled as the real number the \<open>double\<close> expression
  denotes. Every call site has the form \<open>if (callback) callback(p, status);\<close>: the
  returned \<open>bool\<close> is computed and dropped. The model keeps it in a log of the calls
  made, next to the arguments, and nowhere else.
\<close>

type_synonym StreamingProgressCallback = "(real \<Rightarrow> string \<Rightarrow> bool) option"
type_synonym callback_log = "(real \<times> string \<times> bool) list"

definition notify :: "StreamingProgressCallback \<Rightarrow> real \<Rightarrow> string \<Rightarrow> callback_log \<Rightarrow> callback_log" where
  "notify callback p status lg =
     (case callback of None \<Rightarrow> lg | Some f \<Rightarrow> lg @ [(p, status, f p status)])"

record EncodingTask =
  chunk :: StreamingChunk
  params :: WebPEncodeParams
  task_id :: u32

text \<open>
  What the pipeline takes from outside this file. The platform capture and the GPU and
  libwebp-based encoders either return or throw a \<open>std::exception\<close>, whose \<open>what()\<close> is
  the \<open>Inl\<close> value. The worker threads run concurrently with the submitting thread; what
  the submitting thread sees of them is given by two answers. \<open>memory_seen k\<close> is the
  value of \<open>current_memory_usage_\<close> that decides the wait before submission number \<open>k\<close>
  (counted from 0): the first value loaded that passes \<open>CanAllocateMemory\<close> when there is
  one, and otherwise one that does not, in which case the wait never ends.
  \<open>future_ready n i\<close> is the answer of \<open>wait_for(0ms)\<close> on future \<open>i\<close> once \<open>n\<close> chunks
  have been submitted. \<open>future_error_what\<close> is the text of the \<open>what()\<close> of
  \<open>std::future_error\<close>.
\<close>

record PipelineEnv =
  capture_display :: "u32 \<Rightarrow> string + ScreenshotResult"
  gpu_available :: bool
  gpu_encode :: "u8 list \<Rightarrow> u32 \<Rightarrow> u32 \<Rightarrow> u32 \<Rightarrow> WebPEncodeParams \<Rightarrow> string + u8 list"
  simd_encode :: "u8 list \<Rightarrow> u32 \<Rightarrow> u32 \<Rightarrow> u32 \<Rightarrow> WebPEncodeParams \<Rightarrow> string + u8 list"
  memory_seen :: "nat \<Rightarrow> u64"
  future_ready :: "nat \<Rightarrow> nat \<Rightarrow> bool"
  future_error_what :: string

text \<open>\<open>EncodeChunkAdvanced\<close>; an exception of an encoder leaves the function.\<close>

definition EncodeChunkAdvanced ::
  "PipelineEnv \<Rightarrow> StreamingChunk \<Rightarrow> WebPEncodeParams \<Rightarrow> string + u8 list" where
  "EncodeChunkAdvanced env c ps =
     (case (if gpu_available env
            then gpu_encode env (pixel_data c) (StreamingChunk.width c)
                   (StreamingChunk.height c) (StreamingChunk.stride c) ps
            else Inr []) of
        Inl what \<Rightarrow> Inl what
      | Inr gpu \<Rightarrow>
          if gpu_available env \<and> gpu \<noteq> [] then Inr gpu
          else
            (case simd_encode env (pixel_data c) (StreamingChunk.width c)
                    (StreamingChunk.height c) (StreamingChunk.stride c) ps of
               Inl what \<Rightarrow> Inl what
             | Inr simd \<Rightarrow>
                 if simd \<noteq> [] then Inr simd
                 else Inr (fst (EncodeRGBA \<lparr> last_error = [] \<rparr> (Some (pixel_data c))
                                  (StreamingChunk.width c) (StreamingChunk.height c)
                                  (StreamingChunk.stride c) ps))))"

text \<open>
  What the future of a task resolves to once a worker has run \<open>ProcessEncodingTask\<close> on
  it: the encoded bytes (\<open>set_value\<close>) or the exception caught there (\<open>set_exception\<close>).
\<close>

definition task_outcome :: "PipelineEnv \<Rightarrow> EncodingTask \<Rightarrow> string + u8 list" where
  "task_outcome env t = EncodeChunkAdvanced env (chunk t) (params t)"

text \<open>
  \<open>CanAllocateMemory\<close>, given the value loaded from \<open>current_memory_usage_\<close>. The request
  is the \<open>uint32_t\<close> product \<open>chunk.width * chunk.height * 4\<close> converted to \<open>size_t\<close>.
\<close>

definition CanAllocateMemory :: "PipelineConfig \<Rightarrow> u64 \<Rightarrow> u64 \<Rightarrow> bool" where
  "CanAllocateMemory cfg current_usage requested_bytes =
     (let max_usage = max_memory_usage_mb cfg * 1024 * 1024
      in current_usage + requested_bytes \<le> max_usage)"

definition chunk_bytes :: "StreamingChunk \<Rightarrow> u64" where
  "chunk_bytes c = ucast (StreamingChunk.width c * StreamingChunk.height c * 4)"

text \<open>
  Worker threads are started by \<open>Initialize\<close> only, as many as it stores in
  \<open>worker_thread_count_\<close> (at least one), and they run until the pipeline is destroyed.
  So no worker thread exists exactly when \<open>worker_thread_count_\<close> still has its initial
  value 0. A worker that exists takes every queued task in turn, and the future of a
  task it has taken becomes ready.
\<close>

definition has_workers :: "PipelineConfig \<Rightarrow> bool" where
  "has_workers cfg \<longleftrightarrow> worker_thread_count cfg \<noteq> 0"

text \<open>
  The scan that follows a submission once \<open>chunks_submitted >= max_concurrent_chunks\<close>.
  The list holds, per future, whether its result was already moved out by an earlier
  \<open>get()\<close>, and what its task resolves to. Calling \<open>wait_for\<close> on a future whose result
  was moved out is undefined in the standard; libstdc++ and libc++ throw
  \<open>std::future_error\<close>, which is the behaviour modelled. On the first future found
  ready, \<open>get()\<close> either rethrows the task's exception or moves the result out, and the
  scan stops. An exception is \<open>Inl\<close> of its \<open>what()\<close>.
\<close>

fun drain ::
  "string \<Rightarrow> (nat \<Rightarrow> bool) \<Rightarrow> nat \<Rightarrow> (bool \<times> (string + u8 list)) list \<Rightarrow> string + bool list" where
  "drain fe ready i [] = Inr []"
| "drain fe ready i ((t, r) # fs) =
     (if t then Inl fe
      else if ready i then (case r of Inl what \<Rightarrow> Inl what | Inr bytes \<Rightarrow> Inr (True # map fst fs))
      else map_sum id ((#) False) (drain fe ready (Suc i) fs))"

datatype submit_status = AllSubmitted | Raised string | WaitsForever

record SubmitState =
  taken :: "bool list"
  tasks :: "EncodingTask list"
  cb_calls :: callback_log

text \<open>
  The submission loop \<open>for (auto& chunk : chunks)\<close>. The wait for memory ends or spins
  for ever (\<open>WaitsForever\<close>) as the deciding value of the counter says. Without a worker
  no future is ever ready. \<open>n_chunks\<close> is \<open>chunks.size()\<close>.
\<close>

fun submit_loop ::
  "PipelineEnv \<Rightarrow> PipelineConfig \<Rightarrow> u64 \<Rightarrow> WebPEncodeParams \<Rightarrow> StreamingProgressCallback \<Rightarrow> nat
     \<Rightarrow> StreamingChunk list \<Rightarrow> SubmitState \<Rightarrow> submit_status \<times> SubmitState" where
  "submit_loop env cfg max_concurrent_chunks ps callback n_chunks [] st = (AllSubmitted, st)"
| "submit_loop env cfg max_concurrent_chunks ps callback n_chunks (c # cs) st =
     (if \<not> CanAllocateMemory cfg (memory_seen env (length (tasks st))) (chunk_bytes c)
      then (WaitsForever, st)
      else
        (let task = \<lparr> chunk = c, params = ps, task_id = of_nat (length (tasks st)) \<rparr>;
             chunks_submitted = length (tasks st) + 1;
             st = st\<lparr> tasks := tasks st @ [task], taken := taken st @ [False] \<rparr>;
             st = st\<lparr> cb_calls :=
                      notify callback (20 + (real chunks_submitted / real n_chunks) * 60)
                        (''Processing chunk '' @ to_string chunks_submitted @ ''/'' @ to_string n_chunks)
                        (cb_calls st) \<rparr>
         in if (of_nat chunks_submitted :: u64) \<ge> max_concurrent_chunks then
              (case drain (future_error_what env)
                      (\<lambda>i. has_workers cfg \<and> future_ready env chunks_submitted i) 0
                      (zip (taken st) (map (task_outcome env) (tasks st))) of
                 Inl what \<Rightarrow> (Raised what, st)
               | Inr tk \<Rightarrow>
                   submit_loop env cfg max_concurrent_chunks ps callback n_chunks cs (st\<lparr> taken := tk \<rparr>))
            else submit_loop env cfg max_concurrent_chunks ps callback n_chunks cs st))"

text \<open>
  The collection loop \<open>for (auto& future : chunk_futures) future.get()\<close>, once every
  task has been worked on: a future whose result was moved out during submission throws
  \<open>std::future_error\<close>, a task that threw has its exception rethrown, and otherwise the
  encoded bytes are appended.
\<close>

fun collect :: "string \<Rightarrow> (bool \<times> (string + u8 list)) list \<Rightarrow> string + u8 list list" where
  "collect fe [] = Inr []"
| "collect fe ((t, r) # fs) =
     (if t then Inl fe
      else (case r of
              Inl what \<Rightarrow> Inl what
            | Inr bytes \<Rightarrow> map_sum id ((#) bytes) (collect fe fs)))"

text \<open>
  What one call of \<open>StreamCaptureAndEncode\<close> amounts to: the bytes the future resolves
  to, the tasks pushed on the queue in order, and the callback calls made. Three runs do
  not return: the division by a zero \<open>chunk_width_ * chunk_height_ * 4\<close> when computing
  \<open>max_concurrent_chunks\<close>, the endless wait for memory, and the first \<open>future.get()\<close> of
  the collection loop when tasks are queued and no worker thread exists. An exception
  inside the body is caught there: the callback is told and the result is empty. The
  update of the pipeline statistics at the end of a successful run is left out.
\<close>

datatype stream_failure = DivisionByZero | NeverAdmitted | NeverCompleted

record StreamRun =
  result :: "u8 list"
  submitted :: "EncodingTask list"
  progress :: callback_log

definition StreamCaptureAndEncode ::
  "PipelineEnv \<Rightarrow> PipelineConfig \<Rightarrow> u32 \<Rightarrow> WebPEncodeParams \<Rightarrow> StreamingProgressCallback
     \<Rightarrow> stream_failure + StreamRun" where
  "StreamCaptureAndEncode env cfg display_index ps callback =
     (case capture_display env display_index of
        Inl what \<Rightarrow>
          Inr \<lparr> result = [], submitted = [],
                progress = notify callback 0 (''Error: '' @ what) [] \<rparr>
      | Inr screenshot \<Rightarrow>
      if \<not> success screenshot then
        Inr \<lparr> result = [], submitted = [],
              progress = notify callback 0 (''Capture failed: '' @ error_message screenshot) [] \<rparr>
      else
        (let lg = notify callback 10 ''Capture completed, starting streaming encode'' [];
             pixel_count = (ucast (ScreenshotResult.width screenshot) :: u64)
                             * ucast (ScreenshotResult.height screenshot);
             ultra_large_threshold = (7680 * 4320 :: u64)
         in if pixel_count < ultra_large_threshold then
              (let lg = notify callback 50 ''Using optimized single-pass encoding'' lg;
                   res = fst (EncodeRGBA \<lparr> last_error = [] \<rparr> (data screenshot)
                                (ScreenshotResult.width screenshot) (ScreenshotResult.height screenshot)
                                (ScreenshotResult.stride screenshot) ps);
                   lg = notify callback 100 ''Encoding completed'' lg
               in Inr \<lparr> result = res, submitted = [], progress = lg \<rparr>)
            else
              (let lg = notify callback 15 ''Starting ultra-streaming pipeline'' lg;
                   chunks = CreateChunks cfg screenshot;
                   lg = notify callback 20
                          (''Created '' @ to_string (length chunks) @ '' chunks for processing'') lg;
                   divisor = chunk_width cfg * chunk_height cfg * 4
               in if divisor = 0 then Inl DivisionByZero
                  else
                    (let max_concurrent_chunks =
                           min (ucast (worker_thread_count cfg * 2) :: u64)
                               (max_memory_usage_mb cfg * 1024 * 1024 div ucast divisor)
                     in case submit_loop env cfg max_concurrent_chunks ps callback (length chunks)
                               chunks \<lparr> taken = [], tasks = [], cb_calls = lg \<rparr> of
                          (WaitsForever, st) \<Rightarrow> Inl NeverAdmitted
                        | (Raised what, st) \<Rightarrow>
                            Inr \<lparr> result = [], submitted = tasks st,
                                  progress = notify callback 0 (''Error: '' @ what) (cb_calls st) \<rparr>
                        | (AllSubmitted, st) \<Rightarrow>
                            (let lg = notify callback 80 ''Waiting for all chunks to complete'' (cb_calls st)
                             in if tasks st \<noteq> [] \<and> \<not> has_workers cfg then Inl NeverCompleted
                                else
                                  (case collect (future_error_what env)
                                          (zip (taken st) (map (task_outcome env) (tasks st))) of
                                     Inl what \<Rightarrow>
                                       Inr \<lparr> result = [], submitted = tasks st,
                                             progress = notify callback 0 (''Error: '' @ what) lg \<rparr>
                                   | Inr encoded_chunks \<Rightarrow>
                                       (let lg = notify callback 90 ''Combining encoded chunks'' lg;
                                            final_result =
                                              CombineEncodedChunks encoded_chunks
                                                (ScreenshotResult.width screenshot)
                                                (ScreenshotResult.height screenshot);
                                            lg = notify callback 100 ''Ultra-streaming encoding completed'' lg
                                        in Inr \<lparr> result = final_result, submitted = tasks st,
                                                 progress = lg \<rparr>)))))))"


definition env_8k :: PipelineEnv where
  "env_8k =
     \<lparr> capture_display = (\<lambda>i. Inr frame_8k), gpu_available = False,
       gpu_encode = (\<lambda>px w h st ps. Inr []), simd_encode = (\<lambda>px w h st ps. Inr [0x41]),
       memory_seen = (\<lambda>k. 0), future_ready = (\<lambda>n i. False),
       future_error_what = ''No associated state'' \<rparr>"

text \<open>A pipeline initialised with the default number of worker threads on a machine of
  eight hardware threads, and set to chunks of 4096 x 4096.\<close>

definition config_4096 :: PipelineConfig where
  "config_4096 = SetChunkSize 4096 4096 (Initialize 8 0 default_config)"


text \<open>The default member initialisers of \<open>WebPEncodeParams\<close> (\<open>80.0f\<close> is \<open>0x42A00000\<close>).\<close>

definition default_params :: WebPEncodeParams where
  "default_params =
     \<lparr> quality = 0x42A00000, encode_method = 4, target_size = 0, target_psnr = 0, segments = 4,
       sns_strength = 50, filter_strength = 60, filter_sharpness = 0, filter_type = 1,
       autofilter = 0, alpha_compression = 1, alpha_filtering = 1, alpha_quality = 100,
       pass = 1, show_compressed = 0, preprocessing = 0, partitions = 0, partition_limit = 0,
       emulate_jpeg_size = 0, thread_level = 0, low_memory = 0, near_lossless = 100,
       exact = 0, use_delta_palette = 0, use_sharp_yuv = 0, enable_multithreading = True,
       max_threads = 0, enable_streaming = True, stream_buffer_size = 65536 \<rparr>"




section \<open>Reference-counted zero-copy buffers (zero_copy_optimizer.cc)\<close>

text \<open>
  \<open>ZeroCopyBuffer\<close> objects are referred to by pointers; two objects (a parent and a
  view) matter at once, so the model keeps a store from object identities to objects.
  The members \<open>data_\<close> and \<open>size_\<close> are named \<open>data_ptr\<close> and \<open>size_bytes\<close>; \<open>data_\<close> is a
  64-bit address. \<open>ref_count_\<close> is the \<open>std::atomic<int32_t>\<close>, held as its 32-bit
  pattern. A release callback is a \<open>std::function<void()>\<close>, identified by a number;
  running it is recorded in \<open>deleter_runs\<close>.
\<close>

record ZeroCopyBuffer =
  data_ptr :: u64
  size_bytes :: u64
  ref_count :: u32
  deleter :: "nat option"
  is_memory_mapped :: bool
  owns_data :: bool

text \<open>
  How an object came to be: by a \<open>new\<close>-expression, or by \<open>std::make_shared\<close>, which
  places it inside the control block of the \<open>shared_ptr\<close> it returns. The constructor
  is public, so both occur; every view is of the second kind (\<open>CreateView\<close>), and so is
  the buffer made by \<open>MapTextureZeroCopy\<close>.
\<close>

datatype storage = NewExpression | MakeShared

record ZeroCopyStore =
  objects :: "nat \<rightharpoonup> ZeroCopyBuffer"
  made_shared :: "nat set"
  next_object :: nat
  deleter_runs :: "nat list"

definition empty_store :: ZeroCopyStore where
  "empty_store = \<lparr> objects = Map.empty, made_shared = {}, next_object = 0, deleter_runs = [] \<rparr>"

text \<open>The constructor, on a newly created object of the given kind.\<close>

definition construct_buffer ::
  "storage \<Rightarrow> u64 \<Rightarrow> u64 \<Rightarrow> nat option \<Rightarrow> ZeroCopyStore \<Rightarrow> nat \<times> ZeroCopyStore" where
  "construct_buffer kind d sz del h =
     (let b = \<lparr> data_ptr = d, size_bytes = sz, ref_count = 1, deleter = del,
                is_memory_mapped = False, owns_data = (del \<noteq> None) \<rparr>
      in (next_object h,
          h\<lparr> objects := (objects h)(next_object h \<mapsto> b),
             made_shared := (if kind = MakeShared then insert (next_object h) (made_shared h)
                             else made_shared h),
             next_object := Suc (next_object h) \<rparr>))"

text \<open>
  Destruction of an object: \<open>~ZeroCopyBuffer\<close> runs the deleter when there is one, and
  the object is gone. Operating on an object that no longer exists is undefined in C++
  and is \<open>None\<close> here.
\<close>

definition destroy_buffer :: "nat \<Rightarrow> ZeroCopyStore \<Rightarrow> ZeroCopyStore option" where
  "destroy_buffer b h =
     (case objects h b of
        None \<Rightarrow> None
      | Some obj \<Rightarrow>
          Some (h\<lparr> objects := (objects h)(b := None),
                  deleter_runs := deleter_runs h @ (case deleter obj of None \<Rightarrow> [] | Some f \<Rightarrow> [f]) \<rparr>))"

definition AddRef :: "nat \<Rightarrow> ZeroCopyStore \<Rightarrow> ZeroCopyStore option" where
  "AddRef b h =
     (case objects h b of
        None \<Rightarrow> None
      | Some obj \<Rightarrow> Some (h\<lparr> objects := (objects h)(b \<mapsto> obj\<lparr> ref_count := ref_count obj + 1 \<rparr>) \<rparr>))"

text \<open>
  \<open>Release\<close>: \<open>fetch_sub(1)\<close> returns the previous count, and when that was 1 the
  object executes \<open>delete this\<close>. That is a destruction for an object made by a
  \<open>new\<close>-expression. For an object that lives in a \<open>make_shared\<close> control block the
  \<open>delete\<close> is applied to a pointer no \<open>new\<close> returned, which is undefined in C++
  (\<open>None\<close>).
\<close>

definition Release :: "nat \<Rightarrow> ZeroCopyStore \<Rightarrow> ZeroCopyStore option" where
  "Release b h =
     (case objects h b of
        None \<Rightarrow> None
      | Some obj \<Rightarrow>
          (let previous = ref_count obj;
               h = h\<lparr> objects := (objects h)(b \<mapsto> obj\<lparr> ref_count := previous - 1 \<rparr>) \<rparr>
           in if previous = 1
              then (if b \<in> made_shared h then None else destroy_buffer b h)
              else Some h))"

text \<open>
  \<open>CreateView\<close>: the bounds test is \<open>offset + view_size > size_\<close> in \<open>size_t\<close>, and the
  view's address is \<open>data_ + offset\<close> in 64-bit pointer arithmetic. The view is a new
  \<open>make_shared\<close> object with no deleter, a count of its own starting at 1 and no
  reference to its parent; the parent's count is incremented. The result is the view
  (\<open>None\<close> for the null \<open>shared_ptr\<close>) and the new store.
\<close>

definition CreateView ::
  "nat \<Rightarrow> u64 \<Rightarrow> u64 \<Rightarrow> ZeroCopyStore \<Rightarrow> (nat option \<times> ZeroCopyStore) option" where
  "CreateView b offset view_size h =
     (case objects h b of
        None \<Rightarrow> None
      | Some obj \<Rightarrow>
          if offset + view_size > size_bytes obj then Some (None, h)
          else
            (let (view, h) = construct_buffer MakeShared (data_ptr obj + offset) view_size None h;
                 h = h\<lparr> objects := (objects h)(view \<mapsto> (the (objects h view))\<lparr> owns_data := False \<rparr>) \<rparr>
             in map_option (\<lambda>h. (Some view, h)) (AddRef b h)))"

text \<open>
  The end of the last \<open>std::shared_ptr\<close> to a \<open>make_shared\<close> object: the control block
  destroys the object, whatever its \<open>ref_count_\<close> holds. An object made by a
  \<open>new\<close>-expression has no control block, and its holder lets go of it through
  \<open>Release\<close>.
\<close>

definition drop_shared_ptr :: "nat \<Rightarrow> ZeroCopyStore \<Rightarrow> ZeroCopyStore option" where
  "drop_shared_ptr b h = (if b \<in> made_shared h then destroy_buffer b h else None)"

text \<open>A sequence of operations on the store, for stating scenarios.\<close>

datatype zc_op =
    Create storage u64 u64 "nat option"
  | View nat u64 u64
  | Rel nat
  | Drop nat

fun zc_step :: "zc_op \<Rightarrow> ZeroCopyStore \<Rightarrow> ZeroCopyStore option" where
  "zc_step (Create kind d sz del) h = Some (snd (construct_buffer kind d sz del h))"
| "zc_step (View b off sz) h = map_option snd (CreateView b off sz h)"
| "zc_step (Rel b) h = Release b h"
| "zc_step (Drop b) h = drop_shared_ptr b h"

fun zc_run :: "zc_op list \<Rightarrow> ZeroCopyStore \<Rightarrow> ZeroCopyStore option" where
  "zc_run [] h = Some h"
| "zc_run (op # ops) h = (case zc_step op h of None \<Rightarrow> None | Some h' \<Rightarrow> zc_run ops h')"

text \<open>What the scenarios below look at: the callbacks run so far, and the counts of the
  parent (object 0) and of the view (object 1) while they exist.\<close>

definition lifetime_view ::
  "ZeroCopyStore option \<Rightarrow> (nat list \<times> u32 option \<times> u32 option) option" where
  "lifetime_view r =
     map_option (\<lambda>h. (deleter_runs h, map_option ref_count (objects h 0),
                       map_option ref_count (objects h 1))) r"


section \<open>Pixel conversion (simd_converter.cc)\<close>

text \<open>
  The conversion routines read a source buffer and write a destination buffer that does
  not overlap it. A buffer is the list of its bytes; a routine returns the destination
  after the call. Indices are computed in \<open>uint32_t\<close> as in \<open>rgba[i * 4 + 0]\<close>. Reading
  or writing beyond a buffer is undefined in C++; lists ignore such writes.

  The body shared by the scalar loop and the tail loops: one pixel, four assignments.
\<close>

definition convert_pixel :: "u8 list \<Rightarrow> u8 list \<Rightarrow> u32 \<Rightarrow> u8 list" where
  "convert_pixel bgra rgba i =
     (let rgba = rgba[unat (i * 4 + 0) := bgra ! unat (i * 4 + 2)];
          rgba = rgba[unat (i * 4 + 1) := bgra ! unat (i * 4 + 1)];
          rgba = rgba[unat (i * 4 + 2) := bgra ! unat (i * 4 + 0)];
          rgba = rgba[unat (i * 4 + 3) := bgra ! unat (i * 4 + 3)]
      in rgba)"

text \<open>\<open>for (uint32_t i = first; i < pixel_count; ++i)\<close> over that body.\<close>

definition scalar_loop :: "u8 list \<Rightarrow> u8 list \<Rightarrow> u32 \<Rightarrow> u32 \<Rightarrow> u8 list" where
  "scalar_loop bgra rgba first pixel_count =
     foldl (\<lambda>rgba i. convert_pixel bgra rgba (of_nat i)) rgba [unat first ..< unat pixel_count]"

definition ConvertBGRAToRGBA_C :: "u8 list \<Rightarrow> u8 list \<Rightarrow> u32 \<Rightarrow> u8 list" where
  "ConvertBGRAToRGBA_C bgra rgba pixel_count = scalar_loop bgra rgba 0 pixel_count"

text \<open>
  Vector registers are lists of bytes, lowest lane first. Unaligned loads and stores of
  \<open>n\<close> bytes (\<open>vld1q_u8\<close>, \<open>_mm_loadu_si128\<close>, \<open>_mm256_loadu_si256\<close> and the matching
  stores).
\<close>

definition load_bytes :: "nat \<Rightarrow> u8 list \<Rightarrow> nat \<Rightarrow> u8 list" where
  "load_bytes n buf off = map (\<lambda>k. buf ! (off + k)) [0 ..< n]"

definition store_bytes :: "u8 list \<Rightarrow> nat \<Rightarrow> u8 list \<Rightarrow> u8 list" where
  "store_bytes buf off v = foldl (\<lambda>b k. b[off + k := v ! k]) buf [0 ..< length v]"

text \<open>
  \<open>vqtbl1q_u8(t, idx)\<close>: lane \<open>k\<close> of the result is \<open>t[idx[k]]\<close>, or 0 when \<open>idx[k]\<close> is
  16 or more. \<open>|\<close> on vectors is the lane-wise OR.
\<close>

definition vqtbl1q_u8 :: "u8 list \<Rightarrow> u8 list \<Rightarrow> u8 list" where
  "vqtbl1q_u8 t idx = map (\<lambda>i. if unat i < 16 then t ! unat i else 0) idx"

definition vorrq_u8 :: "u8 list \<Rightarrow> u8 list \<Rightarrow> u8 list" where
  "vorrq_u8 a b = map (\<lambda>(x, y). x OR y) (zip a b)"

text \<open>
  \<open>_mm_shuffle_epi8(a, m)\<close>: lane \<open>k\<close> is 0 when bit 7 of \<open>m[k]\<close> is set and
  \<open>a[m[k] & 15]\<close> otherwise. \<open>_mm256_shuffle_epi8\<close> does the same within each half of
  16 lanes.
\<close>

definition mm_shuffle_epi8 :: "u8 list \<Rightarrow> u8 list \<Rightarrow> u8 list" where
  "mm_shuffle_epi8 a m = map (\<lambda>mk. if bit mk 7 then 0 else a ! unat (mk AND 15)) m"

definition mm256_shuffle_epi8 :: "u8 list \<Rightarrow> u8 list \<Rightarrow> u8 list" where
  "mm256_shuffle_epi8 a m =
     map (\<lambda>k. if bit (m ! k) 7 then 0 else a ! (16 * (k div 16) + unat (m ! k AND 15))) [0 ..< 32]"

text \<open>
  The vector loop \<open>for (uint32_t i = 0; i < simd_pixels; i += step)\<close>, where
  \<open>simd_pixels\<close> is a multiple of \<open>step\<close>: the values of \<open>i\<close> are \<open>0, step, 2 * step,\<close> ...
\<close>

definition vector_loop :: "nat \<Rightarrow> u32 \<Rightarrow> (u8 list \<Rightarrow> u32 \<Rightarrow> u8 list) \<Rightarrow> u8 list \<Rightarrow> u8 list" where
  "vector_loop step simd_pixels body rgba =
     foldl (\<lambda>rgba k. body rgba (of_nat (step * k))) rgba [0 ..< unat simd_pixels div step]"

definition ConvertBGRAToRGBA_SSE2 :: "u8 list \<Rightarrow> u8 list \<Rightarrow> u32 \<Rightarrow> u8 list" where
  "ConvertBGRAToRGBA_SSE2 bgra rgba pixel_count =
     (let simd_pixels = pixel_count AND NOT 3;
          shuffle_mask = [2, 1, 0, 3, 6, 5, 4, 7, 10, 9, 8, 11, 14, 13, 12, 15];
          rgba = vector_loop 4 simd_pixels
                   (\<lambda>rgba i.
                      let pixels = load_bytes 16 bgra (unat (i * 4));
                          converted = mm_shuffle_epi8 pixels shuffle_mask
                      in store_bytes rgba (unat (i * 4)) converted)
                   rgba
      in scalar_loop bgra rgba simd_pixels pixel_count)"

definition ConvertBGRAToRGBA_AVX2 :: "u8 list \<Rightarrow> u8 list \<Rightarrow> u32 \<Rightarrow> u8 list" where
  "ConvertBGRAToRGBA_AVX2 bgra rgba pixel_count =
     (let simd_pixels = pixel_count AND NOT 7;
          shuffle_mask = [2, 1, 0, 3, 6, 5, 4, 7, 10, 9, 8, 11, 14, 13, 12, 15,
                          2, 1, 0, 3, 6, 5, 4, 7, 10, 9, 8, 11, 14, 13, 12, 15];
          rgba = vector_loop 8 simd_pixels
                   (\<lambda>rgba i.
                      let pixels = load_bytes 32 bgra (unat (i * 4));
                          converted = mm256_shuffle_epi8 pixels shuffle_mask
                      in store_bytes rgba (unat (i * 4)) converted)
                   rgba
      in scalar_loop bgra rgba simd_pixels pixel_count)"

definition ConvertBGRAToRGBA_NEON :: "u8 list \<Rightarrow> u8 list \<Rightarrow> u32 \<Rightarrow> u8 list" where
  "ConvertBGRAToRGBA_NEON bgra rgba pixel_count =
     (let simd_pixels = pixel_count AND NOT 3;
          rgba = vector_loop 4 simd_pixels
                   (\<lambda>rgba i.
                      let pixels = load_bytes 16 bgra (unat (i * 4));
                          b = vqtbl1q_u8 pixels [0, 4, 8, 12, 0, 0, 0, 0, 0, 0, 0, 0, 0, 0, 0, 0];
                          g = vqtbl1q_u8 pixels [1, 5, 9, 13, 0, 0, 0, 0, 0, 0, 0, 0, 0, 0, 0, 0];
                          r = vqtbl1q_u8 pixels [2, 6, 10, 14, 0, 0, 0, 0, 0, 0, 0, 0, 0, 0, 0, 0];
                          a = vqtbl1q_u8 pixels [3, 7, 11, 15, 0, 0, 0, 0, 0, 0, 0, 0, 0, 0, 0, 0];
                          res = vqtbl1q_u8 r [0, 0, 0, 0, 1, 1, 1, 1, 2, 2, 2, 2, 3, 3, 3, 3];
                          res = vorrq_u8 (vqtbl1q_u8 g [0, 1, 0, 0, 1, 1, 1, 1, 2, 2, 2, 2, 3, 3, 3, 3]) res;
                          res = vorrq_u8 (vqtbl1q_u8 b [0, 0, 2, 0, 1, 1, 1, 1, 2, 2, 2, 2, 3, 3, 3, 3]) res;
                          res = vorrq_u8 (vqtbl1q_u8 a [0, 0, 0, 3, 1, 1, 1, 1, 2, 2, 2, 2, 3, 3, 3, 3]) res
                      in store_bytes rgba (unat (i * 4)) res)
                   rgba
      in scalar_loop bgra rgba simd_pixels pixel_count)"

text \<open>
  The dispatcher \<open>ConvertBGRAToRGBA\<close>. Which paths exist is fixed at compile time and
  which are taken by the CPU probe; both are parameters here. Null pointers and a zero
  count leave the destination untouched.
\<close>

record CPUInfo =
  has_sse2 :: bool
  has_sse41 :: bool
  has_avx2 :: bool
  has_neon :: bool

definition ConvertBGRAToRGBA :: "CPUInfo \<Rightarrow> u8 list option \<Rightarrow> u8 list option \<Rightarrow> u32 \<Rightarrow> u8 list option" where
  "ConvertBGRAToRGBA cpu bgra_data rgba_data pixel_count =
     (case (bgra_data, rgba_data) of
        (Some bgra, Some rgba) \<Rightarrow>
          if pixel_count = 0 then rgba_data
          else if has_avx2 cpu then Some (ConvertBGRAToRGBA_AVX2 bgra rgba pixel_count)
          else if has_sse2 cpu then Some (ConvertBGRAToRGBA_SSE2 bgra rgba pixel_count)
          else if has_neon cpu then Some (ConvertBGRAToRGBA_NEON bgra rgba pixel_count)
          else Some (ConvertBGRAToRGBA_C bgra rgba pixel_count)
      | _ \<Rightarrow> rgba_data)"

text \<open>Five pixels with distinct channel bits, and an ARM processor.\<close>

definition five_pixels :: "u8 list" where
  "five_pixels = [1, 2, 4, 8,  16, 32, 64, 128,  3, 5, 9, 17,  6, 10, 18, 34,  7, 11, 13, 14]"

definition arm_cpu :: CPUInfo where
  "arm_cpu = \<lparr> has_sse2 = False, has_sse41 = False, has_avx2 = False, has_neon = True \<rparr>"


section \<open>The memory counter under interleaving\<close>

text \<open>
  The submitting thread and the workers share the task queue and the atomic
  \<open>current_memory_usage_\<close>. A run of the program is a sequence of atomic steps of these
  threads. For the memory budget only the byte size \<open>chunk.width * chunk.height * 4\<close> of
  each chunk matters, so a task is represented by that size. A worker is idle, holds a
  task it has popped, or is inside \<open>ProcessEncodingTask\<close> between the two calls of
  \<open>UpdateMemoryUsage\<close>.
\<close>

datatype worker = Idle | Popped u64 | Encoding u64

record PipeState =
  pending :: "u64 list"
  task_queue :: "u64 list"
  workers :: "worker list"
  current_memory_usage :: u64
  peak_memory_usage_mb :: u64

text \<open>\<open>UpdateMemoryUsage(delta)\<close>: \<open>fetch_add\<close>, then the peak in MB.\<close>

definition UpdateMemoryUsage :: "u64 \<Rightarrow> PipeState \<Rightarrow> PipeState" where
  "UpdateMemoryUsage delta s =
     (let s = s\<lparr> current_memory_usage := current_memory_usage s + delta \<rparr>;
          current_mb = current_memory_usage s div (1024 * 1024)
      in if current_mb > peak_memory_usage_mb s then s\<lparr> peak_memory_usage_mb := current_mb \<rparr> else s)"

text \<open>
  The steps.
  \<^item> \<open>Submit\<close>: the submitter finds \<open>CanAllocateMemory\<close> true for the next chunk, leaves
    the wait loop and pushes the task.
  \<^item> \<open>Sleep\<close>: it finds \<open>CanAllocateMemory\<close> false and sleeps 10 ms.
  \<^item> \<open>Pop w\<close>: idle worker \<open>w\<close> takes the front of the queue.
  \<^item> \<open>Begin w\<close>: worker \<open>w\<close> enters \<open>ProcessEncodingTask\<close>: \<open>UpdateMemoryUsage(+chunk_memory)\<close>.
  \<^item> \<open>End w\<close>: worker \<open>w\<close> has set the result: \<open>UpdateMemoryUsage(-chunk_memory)\<close>.
  A step that is not enabled in a state yields \<open>None\<close>.
\<close>

datatype pipe_action = Submit | Sleep | Pop nat | Begin nat | End nat

fun pipe_step :: "PipelineConfig \<Rightarrow> pipe_action \<Rightarrow> PipeState \<Rightarrow> PipeState option" where
  "pipe_step cfg Submit s =
     (case pending s of
        [] \<Rightarrow> None
      | b # rest \<Rightarrow>
          if CanAllocateMemory cfg (current_memory_usage s) b
          then Some (s\<lparr> pending := rest, task_queue := task_queue s @ [b] \<rparr>)
          else None)"
| "pipe_step cfg Sleep s =
     (case pending s of
        [] \<Rightarrow> None
      | b # rest \<Rightarrow> if CanAllocateMemory cfg (current_memory_usage s) b then None else Some s)"
| "pipe_step cfg (Pop w) s =
     (if w < length (workers s) \<and> workers s ! w = Idle then
        (case task_queue s of
           [] \<Rightarrow> None
         | b # rest \<Rightarrow> Some (s\<lparr> task_queue := rest, workers := (workers s)[w := Popped b] \<rparr>))
      else None)"
| "pipe_step cfg (Begin w) s =
     (if w < length (workers s) then
        (case workers s ! w of
           Popped b \<Rightarrow> Some (UpdateMemoryUsage b (s\<lparr> workers := (workers s)[w := Encoding b] \<rparr>))
         | _ \<Rightarrow> None)
      else None)"
| "pipe_step cfg (End w) s =
     (if w < length (workers s) then
        (case workers s ! w of
           Encoding b \<Rightarrow> Some (UpdateMemoryUsage (- b) (s\<lparr> workers := (workers s)[w := Idle] \<rparr>))
         | _ \<Rightarrow> None)
      else None)"

fun pipe_run :: "PipelineConfig \<Rightarrow> pipe_action list \<Rightarrow> PipeState \<Rightarrow> PipeState option" where
  "pipe_run cfg [] s = Some s"
| "pipe_run cfg (a # as) s = (case pipe_step cfg a s of None \<Rightarrow> None | Some s' \<Rightarrow> pipe_run cfg as s')"

text \<open>The state in which the submission loop starts on the chunks of a frame.\<close>

definition start_state :: "PipelineConfig \<Rightarrow> ScreenshotResult \<Rightarrow> PipeState" where
  "start_state cfg screenshot =
     \<lparr> pending = map chunk_bytes (CreateChunks cfg screenshot), task_queue = [],
       workers = replicate (unat (worker_thread_count cfg)) Idle,
       current_memory_usage = 0, peak_memory_usage_mb = 0 \<rparr>"

text \<open>
  The scenario of the specification: the budget is exactly one chunk. The smallest
  budget the setter stores is 256 MB, which is one chunk of 8192 by 8192 pixels; the
  frame is two such chunks wide and two workers are running.
\<close>

definition config_one_chunk :: PipelineConfig where
  "config_one_chunk = SetMaxMemoryUsage 256 (SetChunkSize 8192 8192 (Initialize 2 0 default_config))"

definition frame_two_chunks :: ScreenshotResult where
  "frame_two_chunks =
     \<lparr> data = Some (replicate (16384 * 8192 * 4) 0), width = 16384, height = 8192,
       stride = 65536, bytes_per_pixel = 4, data_size = 536870912, success = True,
       error_message = [], format = ''RGBA'', implementation = ''model'' \<rparr>"


section \<open>Byte-level facts\<close>

lemma byte_of: "unat (ucast (drop_bit k (x::u32) AND 0xFF) :: u8) = (unat x div 2 ^ k) mod 256"
proof -
  have "(0xFF :: u32) = mask 8" by (simp add: mask_eq_exp_minus_1)
  then have "drop_bit k x AND 0xFF = take_bit 8 (drop_bit k x)"
    by (simp only: take_bit_eq_mask)
  moreover have "unat (ucast (take_bit 8 (drop_bit k x)) :: u8)
                   = take_bit 8 (take_bit 8 (drop_bit k (unat x)))"
    by (simp only: unsigned_ucast_eq unat_drop_bit_eq unsigned_take_bit_eq) simp
  moreover have "take_bit 8 (take_bit 8 (drop_bit k (unat x))) = (unat x div 2 ^ k) mod 256"
    by (simp add: take_bit_eq_mod drop_bit_eq_div)
  ultimately show ?thesis by simp
qed

lemma byte_of0: "unat (ucast ((x::u32) AND 0xFF) :: u8) = unat x mod 256"
  using byte_of [of 0 x] by simp

lemma bytes_nat3:
  "(n::nat) mod 256 + (256 * (n div 256 mod 256) + 65536 * (n div 65536 mod 256))
     = n mod 16777216"
proof -
  have a: "n mod 16777216 = 65536 * (n mod 16777216 div 65536) + n mod 16777216 mod 65536"
    by simp
  have b: "n mod 16777216 div 65536 = n div 65536 mod 256"
    using mod_mult2_eq [of n 65536 256] by simp
  have c: "n mod 16777216 mod 65536 = n mod 65536"
    by (simp add: mod_mod_cancel)
  have d: "n mod 65536 = 256 * (n div 256 mod 256) + n mod 256"
    using mod_mult2_eq [of n 256 256] by simp
  show ?thesis using a b c d by simp
qed

lemma read_le_push_u24: "read_le (push_u24 x) = unat x mod 2 ^ 24"
  using byte_of [of 8 x] byte_of [of 16 x] bytes_nat3 [of "unat x"]
  by (simp add: read_le_def push_u24_def byte_of0)

lemma read_le_push_u32: "read_le (push_u32 x) = unat x"
proof -
  have lt: "unat x < 4294967296" using unsigned_less [of x] by simp
  then have "unat x div 16777216 < 256" by simp
  then have e: "unat x div 16777216 mod 256 = unat x div 16777216" by simp
  have "read_le (push_u32 x) =
          unat x mod 256 + (256 * (unat x div 256 mod 256)
            + (65536 * (unat x div 65536 mod 256) + 16777216 * (unat x div 16777216 mod 256)))"
    using byte_of [of 8 x] byte_of [of 16 x] byte_of [of 24 x]
    by (simp add: read_le_def push_u32_def byte_of0)
  also have "\<dots> = unat x mod 16777216 + 16777216 * (unat x div 16777216)"
    using bytes_nat3 [of "unat x"] e by linarith
  also have "\<dots> = unat x" by simp
  finally show ?thesis .
qed

lemma length_cstr [simp]: "length (cstr s) = length s"
  by (simp add: cstr_def)

lemma length_push_u32 [simp]: "length (push_u32 x) = 4"
  by (simp add: push_u32_def)

lemma length_push_u24 [simp]: "length (push_u24 x) = 3"
  by (simp add: push_u24_def)


section \<open>Configuration clamping\<close>

text \<open>
  What the setters store, for every argument and every previous configuration:
  \<open>SetChunkSize\<close> stores chunk dimensions of at least 64, \<open>SetMaxMemoryUsage\<close> stores a
  number of megabytes of at least 256, \<open>SetCompressionLevel\<close> stores a level that, read
  as a signed \<open>int\<close>, lies in \<open>[1, 9]\<close>; the same holds of the configuration that
  \<open>ConfigureUltraStreaming\<close> leaves, whether or not the global pipeline existed before,
  and the stored values are the arguments themselves whenever those lie in range.
\<close>

lemma setters_clamp_stored_values:
  "64 \<le> chunk_width (SetChunkSize cw ch p) \<and> 64 \<le> chunk_height (SetChunkSize cw ch p) \<and>
   256 \<le> max_memory_usage_mb (SetMaxMemoryUsage mm p) \<and>
   1 \<le>s compression_level (SetCompressionLevel lvl p) \<and>
   compression_level (SetCompressionLevel lvl p) \<le>s 9 \<and>
   64 \<le> chunk_width (ConfigureUltraStreaming hc g cw ch mm lvl) \<and>
   64 \<le> chunk_height (ConfigureUltraStreaming hc g cw ch mm lvl) \<and>
   256 \<le> max_memory_usage_mb (ConfigureUltraStreaming hc g cw ch mm lvl) \<and>
   1 \<le>s compression_level (ConfigureUltraStreaming hc g cw ch mm lvl) \<and>
   compression_level (ConfigureUltraStreaming hc g cw ch mm lvl) \<le>s 9 \<and>
   chunk_width (ConfigureUltraStreaming hc g cw ch mm lvl) = max 64 cw \<and>
   chunk_height (ConfigureUltraStreaming hc g cw ch mm lvl) = max 64 ch \<and>
   max_memory_usage_mb (ConfigureUltraStreaming hc g cw ch mm lvl) = max 256 mm \<and>
   sint (compression_level (ConfigureUltraStreaming hc g cw ch mm lvl))
     = max 1 (min 9 (sint lvl))"
  by (auto simp: ConfigureUltraStreaming_def SetCompressionLevel_def SetMaxMemoryUsage_def
      SetChunkSize_def clamp_int_def Let_def word_sle_eq word_sless_alt)

text \<open>
  The budget that is enforced is the byte count \<open>max_memory_usage_mb_ * 1024 * 1024\<close>
  formed in \<open>uint64_t\<close> by \<open>CanAllocateMemory\<close>: the stored number of megabytes times
  \<open>2^20\<close>, modulo \<open>2^64\<close>. It is at least 256 MB as long as the argument is below
  \<open>2^44\<close>.
\<close>

lemma byte_budget_is_product_mod:
  "unat (max_memory_usage_mb (SetMaxMemoryUsage mm p) * 1024 * 1024)
     = (max 256 (unat mm) * 1048576) mod 2 ^ 64"
proof -
  have m: "unat (max 256 mm) = max 256 (unat mm)"
    by (simp add: max_def word_le_nat_alt)
  have "max 256 mm * 1024 * 1024 = (of_nat (unat (max 256 mm) * 1048576) :: u64)"
    by simp
  then have "unat (max 256 mm * 1024 * 1024) = (unat (max 256 mm) * 1048576) mod 2 ^ 64"
    by (simp only: unat_of_nat) simp
  then show ?thesis
    by (simp add: SetMaxMemoryUsage_def m)
qed

lemma byte_budget_floor_below_wrap:
  assumes "unat mm < 2 ^ 44"
  shows "268435456 \<le> unat (max_memory_usage_mb (SetMaxMemoryUsage mm p) * 1024 * 1024)"
proof -
  have "max 256 (unat mm) * 1048576 < 2 ^ 64"
    using assms by (simp add: max_def)
  then have "(max 256 (unat mm) * 1048576) mod 2 ^ 64 = max 256 (unat mm) * 1048576"
    by simp
  moreover have "268435456 \<le> max 256 (unat mm) * 1048576"
    by (simp add: max_def)
  ultimately show ?thesis
    by (simp only: byte_budget_is_product_mod)
qed

lemma wrapped_products:
  "(17592186044416 :: u64) * 1024 * 1024 = 0" "(17592186044417 :: u64) * 1024 * 1024 = 1048576"
  by (simp_all add: word_unat_eq_iff)

text \<open>
  C10. The lower clamp of \<open>SetMaxMemoryUsage\<close> does not keep the effective budget at
  256 MB or more. \<open>ConfigureUltraStreaming\<close> with \<open>max_memory_mb = 2^44\<close> stores that
  number unchanged, the byte budget computed from it is \<open>2^64 mod 2^64 = 0\<close>, and with
  an empty counter not even a request of one byte is admitted. With \<open>2^44 + 1\<close> the byte
  budget is one megabyte, and a request of one megabyte and one byte is refused.
\<close>

theorem SetMaxMemoryUsage_budget_wraps:
  "max_memory_usage_mb (ConfigureUltraStreaming hc g cw ch 17592186044416 lvl) = 17592186044416 \<and>
   max_memory_usage_mb (ConfigureUltraStreaming hc g cw ch 17592186044416 lvl) * 1024 * 1024 = 0 \<and>
   \<not> CanAllocateMemory (ConfigureUltraStreaming hc g cw ch 17592186044416 lvl) 0 1 \<and>
   max_memory_usage_mb (SetMaxMemoryUsage 17592186044417 p) * 1024 * 1024 = 1048576 \<and>
   \<not> CanAllocateMemory (SetMaxMemoryUsage 17592186044417 p) 0 1048577"
proof -
  have a: "max_memory_usage_mb (ConfigureUltraStreaming hc g cw ch 17592186044416 lvl) = 17592186044416"
    by (simp add: ConfigureUltraStreaming_def SetCompressionLevel_def SetMaxMemoryUsage_def
        SetChunkSize_def Let_def)
  have b: "max_memory_usage_mb (SetMaxMemoryUsage 17592186044417 p) = 17592186044417"
    by (simp add: SetMaxMemoryUsage_def)
  show ?thesis
    unfolding CanAllocateMemory_def Let_def a b wrapped_products by simp
qed


section \<open>The placeholder encoder ignores the pixels\<close>

text \<open>
  C9. For any two non-null pixel buffers encoded at the same width and height,
  \<open>EncodeRGBA\<close> (through \<open>EncodeInternal\<close>) returns the same bytes, whatever the pixel
  contents, the strides, the encoding parameters and the previous state of the two
  encoders; \<open>EncodeInternal\<close> is likewise indifferent to the alpha flag. With nonzero
  dimensions the common output is not empty: it begins with the twenty header bytes
  built from width and height alone.
\<close>

theorem EncodeRGBA_depends_on_dimensions_only:
  "fst (EncodeRGBA e1 (Some d1) w h s1 p1) = fst (EncodeRGBA e2 (Some d2) w h s2 p2) \<and>
   fst (EncodeInternal e1 (Some d1) w h s1 a1 p1) = fst (EncodeInternal e2 (Some d2) w h s2 a2 p2) \<and>
   (if w = 0 \<or> h = 0 then fst (EncodeRGBA e1 (Some d1) w h s1 p1) = []
    else take 20 (fst (EncodeRGBA e1 (Some d1) w h s1 p1)) =
           cstr ''RIFF'' @ push_u32 (w * h + 100) @ cstr ''WEBP'' @ cstr ''VP8 ''
             @ push_u32 (w * h div 10))"
proof -
  have pre: "take (length r) (placeholder_loop i n r) = r" for i n r
  proof (induction i n r rule: placeholder_loop.induct)
    case (1 i n r)
    show ?case
    proof (cases "i < n \<and> length r < 1000000")
      case True
      from 1 [OF True]
      have "take (Suc (length r)) (placeholder_loop (i + 1) n (r @ [ucast (i mod 256)]))
              = r @ [ucast (i mod 256)]"
        by simp
      then have "take (length r) (take (Suc (length r))
                   (placeholder_loop (i + 1) n (r @ [ucast (i mod 256)]))) = r"
        by simp
      then have "take (length r) (placeholder_loop (i + 1) n (r @ [ucast (i mod 256)])) = r"
        by (simp add: min_def)
      with True show ?thesis
        by (subst placeholder_loop.simps) simp
    next
      case False
      then show ?thesis
        by (subst placeholder_loop.simps) auto
    qed
  qed
  have len: "length (cstr ''RIFF'' @ push_u32 a @ cstr ''WEBP'' @ cstr ''VP8 '' @ push_u32 b) = 20"
    for a b
    by (simp add: cstr_def push_u32_def)
  show ?thesis
    using pre [of "cstr ''RIFF'' @ push_u32 (w * h + 100) @ cstr ''WEBP'' @ cstr ''VP8 ''
                     @ push_u32 (w * h div 10)" 0 "w * h div 10"]
    unfolding len
    by (simp add: EncodeRGBA_def EncodeInternal_def Let_def)
qed


section \<open>Container layout\<close>


lemma foldl_append_concat: "foldl (\<lambda>r chunk. r @ chunk) r xs = r @ concat xs"
  by (induction xs arbitrary: r) simp_all

lemma foldl_append_tiles:
  "foldl (\<lambda>r tile. r @ encoded_data tile) r tiles = r @ concat (map encoded_data tiles)"
  by (induction tiles arbitrary: r) simp_all

lemma foldl_tile_sizes:
  "foldl (\<lambda>n tile. n + (of_nat (length (encoded_data tile)) :: u32)) a tiles
     = a + of_nat (length (concat (map encoded_data tiles)))"
  by (induction tiles arbitrary: a) (simp_all add: algebra_simps)

lemma memcpy_u32_header:
  "length a = 4 \<Longrightarrow> memcpy_u32 (a @ [b0, b1, b2, b3] @ rest) 4 v = a @ push_u32 v @ rest"
  by (simp add: memcpy_u32_def push_u32_def list_update_append)

lemma CombineEncodedChunks_layout:
  "CombineEncodedChunks ps w h =
     cstr ''RIFF'' @ push_u32 (of_nat (length (concat ps) + 4)) @ cstr ''WEBP'' @ concat ps"
proof -
  have "CombineEncodedChunks ps w h =
          memcpy_u32 (cstr ''RIFF'' @ [0, 0, 0, 0] @ (cstr ''WEBP'' @ concat ps)) 4
            (of_nat (length (concat ps) + 4))"
    by (simp add: CombineEncodedChunks_def Let_def foldl_append_concat add.commute)
  also have "\<dots> = cstr ''RIFF'' @ push_u32 (of_nat (length (concat ps) + 4))
                     @ (cstr ''WEBP'' @ concat ps)"
    by (rule memcpy_u32_header) simp
  finally show ?thesis .
qed

lemma CombineEncodedTiles_layout:
  "CombineEncodedTiles tiles w h a =
     cstr ''RIFF'' @ push_u32 (of_nat (length (concat (map encoded_data tiles))) + 100)
       @ cstr ''WEBP'' @ cstr ''VP8X'' @ push_u32 10 @ [if a then 0x10 else 0, 0, 0, 0]
       @ push_u24 (w - 1) @ push_u24 (h - 1) @ concat (map encoded_data tiles)"
  by (simp add: CombineEncodedTiles_def Let_def foldl_append_tiles foldl_tile_sizes)

text \<open>
  C3 (as amended). The repository has two composers and neither builds the whole
  container of the specification.
  \<^item> \<open>CombineEncodedChunks\<close>, the one the streaming pipeline calls, emits the magic
    \<open>RIFF\<close> \<open>....\<close> \<open>WEBP\<close>, writes \<open>(length - 8) mod 2^32\<close> back into the size field
    after assembly and appends the payloads in order; nothing else follows the magic, so
    there is no extended-canvas record and the canvas arguments are unused.
  \<^item> \<open>CombineEncodedTiles\<close> emits \<open>RIFF\<close>, the size field \<open>(payload bytes + 100) mod 2^32\<close>,
    \<open>WEBP\<close>, then the \<open>VP8X\<close> record of declared size 10: the alpha flag \<open>0x10\<close> or \<open>0\<close>,
    three zero bytes, and two 24-bit little-endian fields that hold \<open>canvasWidth - 1\<close> and
    \<open>canvasHeight - 1\<close> for dimensions from 1 to \<open>2^24\<close>; then the payloads in order.
\<close>

theorem container_layouts:
  "take 4 (CombineEncodedChunks ps w h) = cstr ''RIFF'' \<and>
   read_le (take 4 (drop 4 (CombineEncodedChunks ps w h)))
     = (length (CombineEncodedChunks ps w h) - 8) mod 2 ^ 32 \<and>
   take 4 (drop 8 (CombineEncodedChunks ps w h)) = cstr ''WEBP'' \<and>
   drop 12 (CombineEncodedChunks ps w h) = concat ps \<and>
   take 4 (CombineEncodedTiles tiles w h a) = cstr ''RIFF'' \<and>
   read_le (take 4 (drop 4 (CombineEncodedTiles tiles w h a)))
     = (length (concat (map encoded_data tiles)) + 100) mod 2 ^ 32 \<and>
   take 4 (drop 8 (CombineEncodedTiles tiles w h a)) = cstr ''WEBP'' \<and>
   take 4 (drop 12 (CombineEncodedTiles tiles w h a)) = cstr ''VP8X'' \<and>
   read_le (take 4 (drop 16 (CombineEncodedTiles tiles w h a))) = 10 \<and>
   take 4 (drop 20 (CombineEncodedTiles tiles w h a)) = [if a then 0x10 else 0, 0, 0, 0] \<and>
   (1 \<le> unat w \<and> unat w \<le> 2 ^ 24 \<longrightarrow>
      read_le (take 3 (drop 24 (CombineEncodedTiles tiles w h a))) = unat w - 1) \<and>
   (1 \<le> unat h \<and> unat h \<le> 2 ^ 24 \<longrightarrow>
      read_le (take 3 (drop 27 (CombineEncodedTiles tiles w h a))) = unat h - 1) \<and>
   drop 30 (CombineEncodedTiles tiles w h a) = concat (map encoded_data tiles)"
proof -
  have dec: "1 \<le> unat x \<Longrightarrow> unat x \<le> 2 ^ 24 \<Longrightarrow> unat (x - 1) mod 2 ^ 24 = unat x - 1"
    for x :: u32
  proof -
    assume a: "1 \<le> unat x" "unat x \<le> 2 ^ 24"
    then have "unat (x - 1) = unat x - 1"
      by (simp add: unat_minus_one unat_eq_zero [symmetric])
    with a show ?thesis by simp
  qed
  have sz: "unat (of_nat n + 100 :: u32) = (n + 100) mod 2 ^ 32" for n
  proof -
    have "(of_nat n + 100 :: u32) = of_nat (n + 100)" by simp
    then show ?thesis by (simp only: unat_of_nat) simp
  qed
  have sz2: "unat (of_nat n + 4 :: u32) = (4 + n) mod 2 ^ 32" for n
  proof -
    have "(of_nat n + 4 :: u32) = of_nat (4 + n)" by simp
    then show ?thesis by (simp only: unat_of_nat) simp
  qed
  show ?thesis
    unfolding CombineEncodedChunks_layout CombineEncodedTiles_layout
    using dec [of w] dec [of h]
    by (simp add: read_le_push_u32 read_le_push_u24 sz sz2)
qed

theorem container_layouts_witness:
  "(1::nat) \<le> unat (100 :: u32) \<and> unat (100 :: u32) \<le> 2 ^ 24 \<and>
   read_le (take 3 (drop 24 (CombineEncodedTiles [\<lparr>encoded_data = [0x41]\<rparr>] 100 100 False))) = 99 \<and>
   read_le (take 3 (drop 27 (CombineEncodedTiles [\<lparr>encoded_data = [0x41]\<rparr>] 100 100 False))) = 99 \<and>
   read_le (take 4 (drop 4 (CombineEncodedChunks [[0x41]] 100 100))) = 5"
  using container_layouts [of "[[0x41]]" 100 100 "[\<lparr>encoded_data = [0x41]\<rparr>]" False]
  by (simp add: CombineEncodedChunks_layout)

text \<open>
  The claim as the specification words it fails for both composers already on one
  one-byte payload and a 100 by 100 canvas: the pipeline's output is thirteen bytes long
  and holds no canvas fields, the tile composer's size field reads 101 where the length
  minus eight is 23.
\<close>

theorem container_claim_counterexample:
  "CombineEncodedChunks [[0x41]] 100 100
     = [0x52, 0x49, 0x46, 0x46, 5, 0, 0, 0, 0x57, 0x45, 0x42, 0x50, 0x41] \<and>
   \<not> contains_bytes (CombineEncodedChunks [[0x41]] 100 100) (push_u24 (100 - 1) @ push_u24 (100 - 1)) \<and>
   \<not> spec_container (CombineEncodedChunks [[0x41]] 100 100) [[0x41]] 100 100 \<and>
   read_le (take 4 (drop 4 (CombineEncodedTiles [\<lparr>encoded_data = [0x41]\<rparr>] 100 100 False))) = 101 \<and>
   length (CombineEncodedTiles [\<lparr>encoded_data = [0x41]\<rparr>] 100 100 False) - 8 = 23 \<and>
   \<not> spec_container (CombineEncodedTiles [\<lparr>encoded_data = [0x41]\<rparr>] 100 100 False) [[0x41]] 100 100"
  by (simp add: spec_container_def CombineEncodedChunks_def CombineEncodedTiles_def
      contains_bytes_def cstr_def push_u24_def push_u32_def memcpy_u32_def read_le_def)


section \<open>Buffer pool\<close>

lemma best_fit_loop_sound:
  assumes "i \<le> length bs"
    and "\<forall>j<length bs. buf_size (bs ! j) < SIZE_MAX"
    and "\<forall>j<i. candidate bs r j \<longrightarrow> bsz \<le> buf_size (bs ! j)"
    and "case bi of
           None \<Rightarrow> bsz = SIZE_MAX
         | Some k \<Rightarrow> k < i \<and> candidate bs r k \<and> bsz = buf_size (bs ! k) \<and>
                     (\<forall>j<k. candidate bs r j \<longrightarrow> bsz < buf_size (bs ! j))"
  shows "case best_fit_loop bs r i bi bsz of
           None \<Rightarrow> \<forall>j<length bs. \<not> candidate bs r j
         | Some k \<Rightarrow> best_fit bs r k"
  using assms
proof (induction bs r i bi bsz rule: best_fit_loop.induct)
  case (1 bufs r i bi bsz)
  note real = "1.prems"(2)
  show ?case
  proof (cases "i < length bufs")
    case False
    with "1.prems" have i: "i = length bufs" by simp
    show ?thesis
    proof (cases bi)
      case None
      with "1.prems" i have "\<forall>j<length bufs. candidate bufs r j \<longrightarrow> SIZE_MAX \<le> buf_size (bufs ! j)"
        by simp
      with real have "\<forall>j<length bufs. \<not> candidate bufs r j"
        by (metis leD)
      with None False show ?thesis
        by (subst best_fit_loop.simps) simp
    next
      case (Some k)
      with "1.prems" i have "best_fit bufs r k"
        by (auto simp: best_fit_def)
      with Some False show ?thesis
        by (subst best_fit_loop.simps) simp
    qed
  next
    case lt: True
    let ?s = "buf_size (bufs ! i)"
    show ?thesis
    proof (cases "r \<le> ?s")
      case ge: True
      with lt have cand: "candidate bufs r i"
        by (simp add: candidate_def)
      show ?thesis
      proof (cases "?s < bsz")
        case better: True
        have before: "\<forall>j<i. candidate bufs r j \<longrightarrow> ?s < buf_size (bufs ! j)"
          using "1.prems"(3) better by fastforce
        show ?thesis
        proof (cases "?s = r")
          case exact: True
          have "best_fit bufs r i"
            unfolding best_fit_def
          proof (intro conjI allI impI)
            show "candidate bufs r i" by (rule cand)
          next
            fix j assume "j < length bufs" "candidate bufs r j"
            then show "?s \<le> buf_size (bufs ! j)"
              using exact by (simp add: candidate_def)
          next
            fix j assume "j < i" "candidate bufs r j"
            then show "?s < buf_size (bufs ! j)" using before by simp
          qed
          with lt ge better exact show ?thesis
            by (subst best_fit_loop.simps) simp
        next
          case inexact: False
          have "case best_fit_loop bufs r (i + 1) (Some i) ?s of
                  None \<Rightarrow> \<forall>j<length bufs. \<not> candidate bufs r j
                | Some k \<Rightarrow> best_fit bufs r k"
          proof (rule "1.IH"(1) [OF lt ge better inexact])
            show "i + 1 \<le> length bufs" using lt by simp
          next
            show "\<forall>j<length bufs. buf_size (bufs ! j) < SIZE_MAX" by (rule real)
          next
            show "\<forall>j<i + 1. candidate bufs r j \<longrightarrow> ?s \<le> buf_size (bufs ! j)"
              using before by (auto simp: less_Suc_eq)
          next
            show "case Some i of None \<Rightarrow> ?s = SIZE_MAX
                  | Some k \<Rightarrow> k < i + 1 \<and> candidate bufs r k \<and> ?s = buf_size (bufs ! k) \<and>
                      (\<forall>j<k. candidate bufs r j \<longrightarrow> ?s < buf_size (bufs ! j))"
              using cand before by simp
          qed
          with lt ge better inexact show ?thesis
            by (subst best_fit_loop.simps) simp
        qed
      next
        case worse: False
        have "case best_fit_loop bufs r (i + 1) bi bsz of
                None \<Rightarrow> \<forall>j<length bufs. \<not> candidate bufs r j
              | Some k \<Rightarrow> best_fit bufs r k"
        proof (rule "1.IH"(2) [OF lt ge worse])
          show "i + 1 \<le> length bufs" using lt by simp
        next
          show "\<forall>j<length bufs. buf_size (bufs ! j) < SIZE_MAX" by (rule real)
        next
          show "\<forall>j<i + 1. candidate bufs r j \<longrightarrow> bsz \<le> buf_size (bufs ! j)"
            using "1.prems"(3) worse by (auto simp: less_Suc_eq)
        next
          show "case bi of None \<Rightarrow> bsz = SIZE_MAX
                | Some k \<Rightarrow> k < i + 1 \<and> candidate bufs r k \<and> bsz = buf_size (bufs ! k) \<and>
                    (\<forall>j<k. candidate bufs r j \<longrightarrow> bsz < buf_size (bufs ! j))"
            using "1.prems"(4) by (auto split: option.splits)
        qed
        with lt ge worse show ?thesis
          by (subst best_fit_loop.simps) simp
      qed
    next
      case small: False
      have "case best_fit_loop bufs r (i + 1) bi bsz of
              None \<Rightarrow> \<forall>j<length bufs. \<not> candidate bufs r j
            | Some k \<Rightarrow> best_fit bufs r k"
      proof (rule "1.IH"(3) [OF lt small])
        show "i + 1 \<le> length bufs" using lt by simp
      next
        show "\<forall>j<length bufs. buf_size (bufs ! j) < SIZE_MAX" by (rule real)
      next
        show "\<forall>j<i + 1. candidate bufs r j \<longrightarrow> bsz \<le> buf_size (bufs ! j)"
          using "1.prems"(3) small by (auto simp: less_Suc_eq candidate_def)
      next
        show "case bi of None \<Rightarrow> bsz = SIZE_MAX
              | Some k \<Rightarrow> k < i + 1 \<and> candidate bufs r k \<and> bsz = buf_size (bufs ! k) \<and>
                  (\<forall>j<k. candidate bufs r j \<longrightarrow> bsz < buf_size (bufs ! j))"
          using "1.prems"(4) by (auto split: option.splits)
      qed
      with lt small show ?thesis
        by (subst best_fit_loop.simps) simp
    qed
  qed
qed

lemma FindBestFitBuffer_sound:
  assumes "capacities_exist bs"
  shows "case FindBestFitBuffer bs r of
           None \<Rightarrow> \<forall>j<length bs. \<not> candidate bs r j
         | Some k \<Rightarrow> best_fit bs r k"
  unfolding FindBestFitBuffer_def
  by (rule best_fit_loop_sound)
     (use assms in \<open>simp_all add: capacities_exist_def list_all_length\<close>)


lemma min_element_loop_sound:
  assumes "i \<le> length bs" and "m < i"
    and "\<forall>j<i. last_used_time (bs ! m) \<le> last_used_time (bs ! j)"
    and "\<forall>j<m. last_used_time (bs ! m) < last_used_time (bs ! j)"
  shows "least_recently_used bs (min_element_loop bs i m)"
  using assms
proof (induction bs i m rule: min_element_loop.induct)
  case (1 bufs i m)
  show ?case
  proof (cases "i < length bufs")
    case False
    with "1.prems" have "least_recently_used bufs m"
      by (auto simp: least_recently_used_def)
    with False show ?thesis
      by (subst min_element_loop.simps) simp
  next
    case lt: True
    let ?m' = "if last_used_time (bufs ! i) < last_used_time (bufs ! m) then i else m"
    have "least_recently_used bufs (min_element_loop bufs (i + 1) ?m')"
    proof (rule "1.IH" [OF lt])
      show "i + 1 \<le> length bufs" using lt by simp
    next
      show "?m' < i + 1" using "1.prems"(2) by simp
    next
      show "\<forall>j<i + 1. last_used_time (bufs ! ?m') \<le> last_used_time (bufs ! j)"
        using "1.prems"(3) by (auto simp: less_Suc_eq)
    next
      show "\<forall>j<?m'. last_used_time (bufs ! ?m') < last_used_time (bufs ! j)"
        using "1.prems"(3,4) by auto
    qed
    with lt show ?thesis
      by (subst min_element_loop.simps) simp
  qed
qed

lemma min_element_sound:
  "bs \<noteq> [] \<Longrightarrow> \<exists>k. min_element bs = Some k \<and> least_recently_used bs k"
proof -
  assume ne: "bs \<noteq> []"
  have "least_recently_used bs (min_element_loop bs 1 0)"
    by (rule min_element_loop_sound) (use ne in \<open>auto simp: Suc_le_eq\<close>)
  with ne show ?thesis by (simp add: min_element_def)
qed

lemma length_erase_at: "k < length xs \<Longrightarrow> length (erase_at k xs) = length xs - 1"
  by (simp add: erase_at_def) 

lemma length_Cleanup: "length (buffers (CleanupExpiredBuffers t p)) \<le> length (buffers p)"
  by (simp add: CleanupExpiredBuffers_def Let_def)

lemma length_GetBuffer: "length (buffers (snd (GetBuffer t alloc sz p))) \<le> length (buffers p)"
proof -
  have a: "length (erase_at k xs) \<le> length xs" for k and xs :: "BufferInfo list"
    by (simp add: erase_at_def)
  show ?thesis
    using length_Cleanup [of t p] a [of _ "buffers (CleanupExpiredBuffers t p)"]
    by (auto simp: GetBuffer_def Let_def split: option.splits intro: order_trans)
qed

lemma ReturnBuffer_full:
  assumes "MAX_POOL_SIZE \<le> length (buffers p)"
  shows "\<exists>k. least_recently_used (buffers p) k \<and>
             buffers (ReturnBuffer t (Some a) sz p) =
               erase_at k (buffers p) @ [\<lparr> buffer = a, buf_size = sz, last_used_time = t \<rparr>]"
proof -
  from assms have "buffers p \<noteq> []" by (auto simp: MAX_POOL_SIZE_def)
  from min_element_sound [OF this] obtain k
    where k: "min_element (buffers p) = Some k" "least_recently_used (buffers p) k" by blast
  with assms show ?thesis
    by (auto simp: ReturnBuffer_def Let_def)
qed

lemma ReturnBuffer_not_full:
  assumes "length (buffers p) < MAX_POOL_SIZE"
  shows "buffers (ReturnBuffer t (Some a) sz p) =
           buffers p @ [\<lparr> buffer = a, buf_size = sz, last_used_time = t \<rparr>]"
  using assms by (simp add: ReturnBuffer_def Let_def)

lemma length_ReturnBuffer:
  assumes "length (buffers p) \<le> MAX_POOL_SIZE"
  shows "length (buffers (ReturnBuffer t buf sz p)) \<le> MAX_POOL_SIZE"
proof (cases buf)
  case None
  with assms show ?thesis by (simp add: ReturnBuffer_def)
next
  case (Some a)
  show ?thesis
  proof (cases "length (buffers p) < MAX_POOL_SIZE")
    case True
    then show ?thesis
      using ReturnBuffer_not_full [OF True, of t a sz] Some by simp
  next
    case False
    with assms have full: "MAX_POOL_SIZE \<le> length (buffers p)" by simp
    from ReturnBuffer_full [OF full, of t a sz] obtain k
      where "least_recently_used (buffers p) k"
        and "buffers (ReturnBuffer t (Some a) sz p) =
               erase_at k (buffers p) @ [\<lparr> buffer = a, buf_size = sz, last_used_time = t \<rparr>]"
      by blast
    then show ?thesis
      using assms Some length_erase_at [of k "buffers p"]
      by (simp add: least_recently_used_def MAX_POOL_SIZE_def)
  qed
qed

lemma length_pool_step:
  "length (buffers p) \<le> MAX_POOL_SIZE \<Longrightarrow> length (buffers (pool_step p c)) \<le> MAX_POOL_SIZE"
proof (cases c)
  case (CallGetBuffer t alloc sz)
  assume "length (buffers p) \<le> MAX_POOL_SIZE"
  then show ?thesis
    using length_GetBuffer [of t alloc sz p] CallGetBuffer by simp
next
  case (CallReturnBuffer t buf sz)
  assume "length (buffers p) \<le> MAX_POOL_SIZE"
  then show ?thesis
    using length_ReturnBuffer [of p t buf sz] CallReturnBuffer by simp
next
  case CallClear
  then show ?thesis by (simp add: Clear_def)
qed

lemma length_pool_run:
  "length (buffers p) \<le> MAX_POOL_SIZE \<Longrightarrow> length (buffers (pool_run calls p)) \<le> MAX_POOL_SIZE"
  unfolding pool_run_def
  by (induction calls arbitrary: p) (simp_all add: length_pool_step)

lemma set_erase_at: "set (erase_at k xs) \<subseteq> set xs"
  by (auto simp: erase_at_def dest: in_set_takeD in_set_dropD)

lemma GetBuffer_buffers_subset:
  "set (buffers (snd (GetBuffer t alloc sz p))) \<subseteq> set (buffers (CleanupExpiredBuffers t p))"
  using set_erase_at [of _ "buffers (CleanupExpiredBuffers t p)"]
  by (auto simp: GetBuffer_def Let_def split: option.splits)

lemma Cleanup_fresh:
  "b \<in> set (buffers (CleanupExpiredBuffers t p)) \<Longrightarrow> t - last_used_time b \<le> BUFFER_TIMEOUT_MS"
  by (auto simp: CleanupExpiredBuffers_def Let_def)


lemma capacities_exist_subset:
  "capacities_exist bs \<Longrightarrow> set cs \<subseteq> set bs \<Longrightarrow> capacities_exist cs"
  by (auto simp: capacities_exist_def list_all_iff)

lemma capacities_exist_Cleanup:
  "capacities_exist (buffers p) \<Longrightarrow> capacities_exist (buffers (CleanupExpiredBuffers t p))"
  by (rule capacities_exist_subset) (auto simp: CleanupExpiredBuffers_def Let_def)

lemma capacities_exist_pool_step:
  assumes "capacities_exist (buffers p)"
    and "case c of CallReturnBuffer t buf sz \<Rightarrow> sz < SIZE_MAX | _ \<Rightarrow> True"
  shows "capacities_exist (buffers (pool_step p c))"
proof (cases c)
  case (CallGetBuffer t alloc sz)
  have "set (buffers (snd (GetBuffer t alloc sz p))) \<subseteq> set (buffers p)"
    using GetBuffer_buffers_subset [of t alloc sz p]
    by (auto simp: CleanupExpiredBuffers_def Let_def)
  with assms(1) CallGetBuffer show ?thesis
    by (auto intro: capacities_exist_subset)
next
  case (CallReturnBuffer t buf sz)
  have e: "capacities_exist (erase_at k (buffers p))" for k
    using assms(1) set_erase_at [of k "buffers p"] by (rule capacities_exist_subset)
  from assms CallReturnBuffer e show ?thesis
    by (auto simp: ReturnBuffer_def Let_def capacities_exist_def split: option.splits)
next
  case CallClear
  then show ?thesis by (simp add: Clear_def capacities_exist_def)
qed

lemma capacities_exist_pool_run:
  assumes "capacities_exist (buffers p)"
    and "list_all (\<lambda>c. case c of CallReturnBuffer t buf sz \<Rightarrow> sz < SIZE_MAX | _ \<Rightarrow> True) calls"
  shows "capacities_exist (buffers (pool_run calls p))"
  using assms unfolding pool_run_def
  by (induction calls arbitrary: p) (simp_all add: capacities_exist_pool_step)

text \<open>
  C7. Let \<open>p\<close> be any pool whose idle buffers have capacities that exist, \<open>sz\<close> any
  request, and \<open>bs\<close> the idle list after the timeout purge. If some buffer in \<open>bs\<close> has
  capacity at least \<open>sz\<close>, then \<open>GetBuffer\<close> hands out the pooled buffer at the best-fit
  position \<open>k\<close>: its capacity is the smallest among the idle buffers of capacity at
  least \<open>sz\<close>, and it is the first one of that capacity. When a buffer of exactly \<open>sz\<close>
  bytes is idle, the one handed out has exactly \<open>sz\<close> bytes and is the first such. The
  entry leaves the idle list, \<open>memory_reuse_count\<close> goes up by one,
  \<open>total_buffers_created\<close> and \<open>total_memory_allocated\<close> are unchanged, and the
  allocator is not consulted: any other allocator gives the same outcome.
\<close>

theorem GetBuffer_reuses_best_fit:
  assumes "capacities_exist (buffers p)"
    and "\<exists>b \<in> set (buffers (CleanupExpiredBuffers t p)). sz \<le> buf_size b"
  shows "\<exists>k. best_fit (buffers (CleanupExpiredBuffers t p)) sz k \<and>
             (\<forall>j. candidate (buffers (CleanupExpiredBuffers t p)) sz j \<and>
                   buf_size (buffers (CleanupExpiredBuffers t p) ! j) = sz
                   \<longrightarrow> buf_size (buffers (CleanupExpiredBuffers t p) ! k) = sz \<and> k \<le> j) \<and>
             fst (GetBuffer t alloc sz p) = Inr (buffer (buffers (CleanupExpiredBuffers t p) ! k)) \<and>
             buffers (snd (GetBuffer t alloc sz p)) = erase_at k (buffers (CleanupExpiredBuffers t p)) \<and>
             memory_reuse_count (stats (snd (GetBuffer t alloc sz p)))
               = memory_reuse_count (stats p) + 1 \<and>
             total_buffers_created (stats (snd (GetBuffer t alloc sz p)))
               = total_buffers_created (stats p) \<and>
             total_memory_allocated (stats (snd (GetBuffer t alloc sz p)))
               = total_memory_allocated (stats p) \<and>
             GetBuffer t alloc' sz p = GetBuffer t alloc sz p"
proof -
  let ?bs = "buffers (CleanupExpiredBuffers t p)"
  have real: "capacities_exist ?bs"
    using assms(1) by (rule capacities_exist_Cleanup)
  from assms(2) obtain j where j: "candidate ?bs sz j"
    by (auto simp: candidate_def in_set_conv_nth)
  then have "j < length ?bs" by (simp add: candidate_def)
  with j FindBestFitBuffer_sound [OF real, of sz]
  obtain k where k: "FindBestFitBuffer ?bs sz = Some k" "best_fit ?bs sz k"
    by (cases "FindBestFitBuffer ?bs sz") auto
  have exact: "buf_size (?bs ! k) = sz \<and> k \<le> i"
    if "candidate ?bs sz i \<and> buf_size (?bs ! i) = sz" for i
  proof -
    from that have i: "candidate ?bs sz i" "buf_size (?bs ! i) = sz" by simp_all
    from k(2) i have le: "buf_size (?bs ! k) \<le> sz"
      by (auto simp: best_fit_def candidate_def)
    from k(2) have ge: "sz \<le> buf_size (?bs ! k)"
      by (simp add: best_fit_def candidate_def)
    from le ge have eq: "buf_size (?bs ! k) = sz" by simp
    have "\<not> i < k"
    proof
      assume "i < k"
      with k(2) i(1) have "buf_size (?bs ! k) < buf_size (?bs ! i)"
        by (simp add: best_fit_def)
      with eq i(2) show False by simp
    qed
    with eq show ?thesis by simp
  qed
  have st: "stats (CleanupExpiredBuffers t p)
              = (stats p)\<lparr> available_buffers := of_nat (length ?bs) \<rparr>"
    by (simp add: CleanupExpiredBuffers_def Let_def)
  show ?thesis
    using k st exact by (intro exI [of _ k]) (simp add: GetBuffer_def Let_def)
qed

theorem GetBuffer_reuses_best_fit_witness:
  "capacities_exist (buffers full_pool) \<and>
   (\<exists>b \<in> set (buffers (CleanupExpiredBuffers 11 full_pool)). 64 \<le> buf_size b) \<and>
   (\<exists>k. best_fit (buffers (CleanupExpiredBuffers 11 full_pool)) 64 k \<and>
        fst (GetBuffer 11 (\<lambda>_. None) 64 full_pool)
          = Inr (buffer (buffers (CleanupExpiredBuffers 11 full_pool) ! k)) \<and>
        memory_reuse_count (stats (snd (GetBuffer 11 (\<lambda>_. None) 64 full_pool))) = 1 \<and>
        total_buffers_created (stats (snd (GetBuffer 11 (\<lambda>_. None) 64 full_pool))) = 0)"
proof -
  have r: "capacities_exist (buffers full_pool)"
    by (simp add: capacities_exist_def full_pool_def new_pool_def SIZE_MAX_def)
  have h: "\<exists>b \<in> set (buffers (CleanupExpiredBuffers 11 full_pool)). 64 \<le> buf_size b"
    by (simp add: CleanupExpiredBuffers_def full_pool_def new_pool_def BUFFER_TIMEOUT_MS_def
        Let_def)
  from GetBuffer_reuses_best_fit [OF r h, of "\<lambda>_. None" "\<lambda>_. None"]
  obtain k where "best_fit (buffers (CleanupExpiredBuffers 11 full_pool)) 64 k"
    and "fst (GetBuffer 11 (\<lambda>_. None) 64 full_pool)
          = Inr (buffer (buffers (CleanupExpiredBuffers 11 full_pool) ! k))"
    and "memory_reuse_count (stats (snd (GetBuffer 11 (\<lambda>_. None) 64 full_pool)))
          = memory_reuse_count (stats full_pool) + 1"
    and "total_buffers_created (stats (snd (GetBuffer 11 (\<lambda>_. None) 64 full_pool)))
          = total_buffers_created (stats full_pool)"
    by blast
  then show ?thesis
    using r h by (auto simp: full_pool_def new_pool_def)
qed

text \<open>
  The condition on the capacities is needed only for the value \<open>SIZE_MAX\<close> itself, which
  \<open>FindBestFitBuffer\<close> uses for "nothing found yet": an entry recorded with that size by
  \<open>ReturnBuffer\<close> is never handed out.
\<close>

lemma entry_recorded_with_SIZE_MAX_is_skipped:
  "buffers (pool_run [CallReturnBuffer 0 (Some 1) SIZE_MAX] new_pool)
     = [\<lparr> buffer = 1, buf_size = SIZE_MAX, last_used_time = 0 \<rparr>] \<and>
   fst (GetBuffer 0 (\<lambda>_. Some 2) 5 (pool_run [CallReturnBuffer 0 (Some 1) SIZE_MAX] new_pool))
     = Inr 2"
  by (simp add: pool_run_def ReturnBuffer_def GetBuffer_def CleanupExpiredBuffers_def
      FindBestFitBuffer_def best_fit_loop.simps new_pool_def BUFFER_TIMEOUT_MS_def SIZE_MAX_def
      MAX_POOL_SIZE_def Let_def)

text \<open>
  C8. Starting from the empty pool of the constructor, or from any pool with at most ten
  idle buffers, every sequence of \<open>GetBuffer\<close>, \<open>ReturnBuffer\<close> and \<open>Clear\<close> calls
  leaves at most \<open>MAX_POOL_SIZE = 10\<close> idle buffers. When \<open>ReturnBuffer\<close> finds the pool
  full, the idle list afterwards is the old one without its least recently used entry,
  followed by the returned buffer stamped with the current time. After \<open>GetBuffer\<close>
  read the clock at \<open>t\<close>, no idle buffer is older than the timeout: \<open>t - last_used_time\<close>,
  computed as the code does, is at most 60000 ms, which is the plain difference whenever
  the stamp is not in the future.
\<close>

theorem pool_bound_lru_and_purge:
  "length (buffers (pool_run calls new_pool)) \<le> 10 \<and>
   (length (buffers p) \<le> 10 \<longrightarrow> length (buffers (pool_run calls p)) \<le> 10) \<and>
   (10 \<le> length (buffers p) \<longrightarrow>
      (\<exists>k. least_recently_used (buffers p) k \<and>
           buffers (ReturnBuffer t (Some a) sz p) =
             erase_at k (buffers p) @ [\<lparr> buffer = a, buf_size = sz, last_used_time = t \<rparr>])) \<and>
   (\<forall>b \<in> set (buffers (snd (GetBuffer now alloc req p))).
      now - last_used_time b \<le> 60000 \<and>
      (last_used_time b \<le> now \<longrightarrow> unat now - unat (last_used_time b) \<le> 60000))"
proof (intro conjI impI ballI)
  show "length (buffers (pool_run calls new_pool)) \<le> 10"
    using length_pool_run [of new_pool calls] by (simp add: MAX_POOL_SIZE_def new_pool_def)
next
  assume "length (buffers p) \<le> 10"
  then show "length (buffers (pool_run calls p)) \<le> 10"
    using length_pool_run [of p calls] by (simp add: MAX_POOL_SIZE_def)
next
  assume "10 \<le> length (buffers p)"
  then show "\<exists>k. least_recently_used (buffers p) k \<and>
           buffers (ReturnBuffer t (Some a) sz p) =
             erase_at k (buffers p) @ [\<lparr> buffer = a, buf_size = sz, last_used_time = t \<rparr>]"
    using ReturnBuffer_full [of p t a sz] by (simp add: MAX_POOL_SIZE_def)
next
  fix b assume "b \<in> set (buffers (snd (GetBuffer now alloc req p)))"
  then have "b \<in> set (buffers (CleanupExpiredBuffers now p))"
    using GetBuffer_buffers_subset by blast
  then show le: "now - last_used_time b \<le> 60000"
    using Cleanup_fresh [of b now p] by (simp add: BUFFER_TIMEOUT_MS_def)
  assume "last_used_time b \<le> now"
  then have "unat (now - last_used_time b) = unat now - unat (last_used_time b)"
    by (simp add: unat_sub)
  moreover from le have "unat (now - last_used_time b) \<le> 60000"
    by (simp add: word_le_nat_alt)
  ultimately show "unat now - unat (last_used_time b) \<le> 60000" by simp
qed

theorem pool_bound_lru_and_purge_witness:
  "length (buffers full_pool) \<le> 10 \<and> 10 \<le> length (buffers full_pool) \<and>
   length (buffers (pool_run [CallReturnBuffer 11 (Some 11) 64, CallGetBuffer 70000 (\<lambda>_. None) 200]
      full_pool)) \<le> 10 \<and>
   (\<exists>k. least_recently_used (buffers full_pool) k \<and>
        buffers (ReturnBuffer 11 (Some 11) 64 full_pool) =
          erase_at k (buffers full_pool) @ [\<lparr> buffer = 11, buf_size = 64, last_used_time = 11 \<rparr>]) \<and>
   list_all (\<lambda>b. 60005 - last_used_time b \<le> 60000 \<and> last_used_time b \<le> 60005 \<and>
                 unat (60005 :: u64) - unat (last_used_time b) \<le> 60000)
     (buffers (snd (GetBuffer 60005 (\<lambda>_. None) 200 full_pool))) \<and>
   length (buffers (snd (GetBuffer 60005 (\<lambda>_. None) 200 full_pool))) = 6"
proof -
  have len: "length (buffers full_pool) = 10"
    by (simp add: full_pool_def new_pool_def)
  have get: "buffers (snd (GetBuffer 60005 (\<lambda>_. None) 200 full_pool))
               = map (\<lambda>i. \<lparr> buffer = i, buf_size = 100, last_used_time = of_nat i \<rparr>) [5, 6, 7, 8, 9, 10]"
    by (simp add: GetBuffer_def CleanupExpiredBuffers_def FindBestFitBuffer_def
        best_fit_loop.simps full_pool_def new_pool_def BUFFER_TIMEOUT_MS_def SIZE_MAX_def Let_def)
  show ?thesis
    using pool_bound_lru_and_purge
      [where calls = "[CallReturnBuffer 11 (Some 11) 64, CallGetBuffer 70000 (\<lambda>_. None) 200]"
         and p = full_pool and t = 11 and a = 11 and sz = 64 and now = 60005
         and alloc = "\<lambda>_. None" and req = 200]
    by (simp add: len get)
qed


section \<open>Tiling\<close>

lemma foldl_columns:
  "foldl (\<lambda>(chunks, cid) x. (chunks @ [f (of_nat x) cid], cid + 1)) (cs0, id0) [0 ..< n]
     = (cs0 @ map (\<lambda>i. f (of_nat i) (id0 + of_nat i)) [0 ..< n], id0 + of_nat n)"
  for id0 :: u32
  by (induction n) (simp_all add: algebra_simps)

lemma foldl_rows:
  "foldl (\<lambda>(chunks, cid) y. (chunks @ row y cid, cid + of_nat m)) (cs0, id0) [0 ..< n]
     = (cs0 @ concat (map (\<lambda>j. row j (id0 + of_nat (j * m))) [0 ..< n]), id0 + of_nat (n * m))"
  for id0 :: u32
  by (induction n) (simp_all add: algebra_simps)

lemma grid_as_map:
  "concat (map (\<lambda>j. map (g j) [0 ..< m]) [0 ..< n])
     = map (\<lambda>k. g (k div m) (k mod m)) [0 ..< n * m]"
proof (induction n)
  case 0
  show ?case by simp
next
  case (Suc n)
  have split: "[0 ..< Suc n * m] = [0 ..< n * m] @ map (\<lambda>i. n * m + i) [0 ..< m]"
  proof -
    have "[0 ..< n * m + m] = [0 ..< n * m] @ [n * m ..< n * m + m]"
      by (rule upt_add_eq_append) simp
    moreover have "map (\<lambda>i. n * m + i) [0 ..< m] = [n * m ..< n * m + m]"
      using map_add_upt [of "n * m" m] by (simp add: add.commute)
    ultimately show ?thesis by (simp add: add.commute)
  qed
  have last_row: "map (\<lambda>k. g (k div m) (k mod m)) (map (\<lambda>i. n * m + i) [0 ..< m]) = map (g n) [0 ..< m]"
    by (rule nth_equalityI) (simp_all add: div_mult_self3)
  show ?case
    using Suc.IH last_row by (simp only: split map_append upt_Suc_append [of 0 n, simplified] concat_append) simp
qed

lemma CreateChunks_as_map:
  "CreateChunks cfg s =
     (let chunks_x = (ScreenshotResult.width s + chunk_width cfg - 1) div chunk_width cfg;
          chunks_y = (ScreenshotResult.height s + chunk_height cfg - 1) div chunk_height cfg
      in map (\<lambda>k. make_chunk cfg s chunks_x chunks_y
                      (of_nat (k mod unat chunks_x)) (of_nat (k div unat chunks_x)) (of_nat k))
           [0 ..< unat chunks_y * unat chunks_x])"
proof -
  define cx where "cx = (ScreenshotResult.width s + chunk_width cfg - 1) div chunk_width cfg"
  define cy where "cy = (ScreenshotResult.height s + chunk_height cfg - 1) div chunk_height cfg"
  define f where "f y x cid = make_chunk cfg s cx cy x (of_nat y) cid" for y x cid
  have inner: "(\<lambda>(chunks, cid) y.
                  foldl (\<lambda>(chunks, cid) x. (chunks @ [f y (of_nat x) cid], cid + 1))
                    (chunks, cid) [0 ..< unat cx])
             = (\<lambda>(chunks, cid) y.
                  (chunks @ map (\<lambda>i. f y (of_nat i) (cid + of_nat i)) [0 ..< unat cx],
                   cid + of_nat (unat cx)))"
    by (simp add: fun_eq_iff foldl_columns)
  have "CreateChunks cfg s =
          fst (foldl (\<lambda>(chunks, cid) y.
                  foldl (\<lambda>(chunks, cid) x. (chunks @ [f y (of_nat x) cid], cid + 1))
                    (chunks, cid) [0 ..< unat cx])
                ([], 0) [0 ..< unat cy])"
    by (simp add: CreateChunks_def Let_def cx_def cy_def f_def)
  also have "\<dots> = concat (map (\<lambda>j. map (\<lambda>i. f j (of_nat i) (of_nat (j * unat cx) + of_nat i))
                                       [0 ..< unat cx]) [0 ..< unat cy])"
    unfolding inner
    using foldl_rows [of "\<lambda>y cid. map (\<lambda>i. f y (of_nat i) (cid + of_nat i)) [0 ..< unat cx]"
                         "unat cx" "[]" 0 "unat cy"]
    by simp
  also have "\<dots> = map (\<lambda>k. f (k div unat cx) (of_nat (k mod unat cx))
                              (of_nat (k div unat cx * unat cx) + of_nat (k mod unat cx)))
                     [0 ..< unat cy * unat cx]"
    by (rule grid_as_map)
  also have "\<dots> = map (\<lambda>k. f (k div unat cx) (of_nat (k mod unat cx)) (of_nat k))
                     [0 ..< unat cy * unat cx]"
  proof -
    have "(of_nat (k div unat cx * unat cx) + of_nat (k mod unat cx) :: u32) = of_nat k" for k
    proof -
      have "(of_nat (k div unat cx * unat cx) + of_nat (k mod unat cx) :: u32)
              = of_nat (k div unat cx * unat cx + k mod unat cx)"
        by (simp only: of_nat_add)
      then show ?thesis by simp
    qed
    then show ?thesis by simp
  qed
  finally show ?thesis
    by (simp add: Let_def cx_def cy_def f_def)
qed


lemma tile_start_inside:
  assumes "0 < T" and "i < ceil_div W T"
  shows "i * T < W"
proof -
  from assms(2) have "Suc i \<le> (W + T - 1) div T" by (simp add: ceil_div_def)
  then have "Suc i * T \<le> (W + T - 1) div T * T" by (rule mult_le_mono1)
  also have "\<dots> \<le> W + T - 1" by (rule div_times_less_eq_dividend)
  finally have "i * T + T \<le> W + T - 1" by simp
  with assms(1) show ?thesis by arith
qed

lemma tile_of_pixel:
  assumes "0 < T" and "px < W"
  shows "px div T < ceil_div W T"
proof -
  from assms have "px + T \<le> W + T - 1" by arith
  then have "(px + T) div T \<le> (W + T - 1) div T" by (rule div_le_mono)
  moreover have "(px + T) div T = Suc (px div T)" using assms(1) by (simp add: div_add_self2)
  ultimately show ?thesis by (simp add: ceil_div_def)
qed

lemma tile_unique:
  fixes T px i W :: nat
  assumes "0 < T" and "i * T \<le> px" and "px < i * T + min T (W - i * T)"
  shows "i = px div T"
proof -
  from assms(3) have "px < i * T + T"
    by (metis add_le_cancel_left min.cobounded1 order_less_le_trans)
  then have "px < Suc i * T" by (simp add: add.commute)
  with assms(1,2) show ?thesis
    by (metis div_nat_eqI mult.commute)
qed

lemma tile_contains_pixel:
  fixes T px W :: nat
  assumes "0 < T" and "px < W"
  shows "px div T * T \<le> px \<and> px < px div T * T + min T (W - px div T * T)"
proof -
  have a: "px div T * T \<le> px" by (simp add: div_times_less_eq_dividend)
  have "px = px div T * T + px mod T" by simp
  moreover have "px mod T < T" using assms(1) by simp
  ultimately have b: "px < px div T * T + T" by linarith
  from a b assms(2) show ?thesis by (auto simp: min_def)
qed

text \<open>One axis of the grid in machine arithmetic, when \<open>extent + tile - 1\<close> does not wrap.\<close>

lemma axis_count:
  fixes W T :: u32
  assumes "0 < T" and "unat W + unat T - 1 < 2 ^ 32"
  shows "unat ((W + T - 1) div T) = ceil_div (unat W) (unat T)"
proof -
  from assms(1) have T: "0 < unat T" by (simp add: word_less_nat_alt)
  have "W + T - 1 = of_nat (unat W + unat T - 1)"
    using T by (simp add: of_nat_diff)
  then have "unat (W + T - 1) = (unat W + unat T - 1) mod 2 ^ 32"
    by (simp only: unat_of_nat) simp
  with assms(2) have "unat (W + T - 1) = unat W + unat T - 1" by simp
  then show ?thesis by (simp add: unat_div ceil_div_def)
qed

lemma axis_tile:
  fixes W T :: u32
  assumes "0 < T" and "i < ceil_div (unat W) (unat T)"
  shows "unat (of_nat i * T) = i * unat T"
    and "unat (min T (W - of_nat i * T)) = min (unat T) (unat W - i * unat T)"
proof -
  from assms(1) have T: "0 < unat T" by (simp add: word_less_nat_alt)
  from tile_start_inside [OF T assms(2)] have lt: "i * unat T < unat W" .
  have W: "unat W < 2 ^ 32" using unsigned_less [of W] by simp
  have "of_nat i * T = (of_nat (i * unat T) :: u32)" by simp
  then have "unat (of_nat i * T) = (i * unat T) mod 2 ^ 32"
    by (simp only: unat_of_nat) simp
  with lt W show off: "unat (of_nat i * T) = i * unat T" by simp
  from off lt have "of_nat i * T \<le> W" by (simp add: word_le_nat_alt)
  then have "unat (W - of_nat i * T) = unat W - i * unat T"
    using off by (simp add: unat_sub)
  then show "unat (min T (W - of_nat i * T)) = min (unat T) (unat W - i * unat T)"
    by (simp add: min_def word_le_nat_alt)
qed

lemma axis_last:
  fixes c :: u32
  assumes "i < unat c"
  shows "(of_nat i = c - 1) \<longleftrightarrow> (i = unat c - 1)"
proof -
  have c: "unat c < 2 ^ 32" using unsigned_less [of c] by simp
  from assms have "c \<noteq> 0" by (auto simp: unat_eq_zero)
  then have "unat (c - 1) = unat c - 1" by (simp add: unat_minus_one)
  moreover have "unat (of_nat i :: u32) = i"
    using assms c by (simp add: unat_of_nat)
  ultimately show ?thesis
    by (simp add: word_unat_eq_iff)
qed


lemma CreateChunks_fields:
  fixes cfg :: PipelineConfig and s :: ScreenshotResult
  defines "W \<equiv> unat (ScreenshotResult.width s)" and "H \<equiv> unat (ScreenshotResult.height s)"
    and "Tw \<equiv> unat (chunk_width cfg)" and "Th \<equiv> unat (chunk_height cfg)"
  assumes tw: "0 < chunk_width cfg" and th: "0 < chunk_height cfg"
    and nw: "W + Tw - 1 < 2 ^ 32" and nh: "H + Th - 1 < 2 ^ 32"
  shows "length (CreateChunks cfg s) = ceil_div W Tw * ceil_div H Th"
    and "k < ceil_div W Tw * ceil_div H Th \<Longrightarrow>
           unat (x_offset (CreateChunks cfg s ! k)) = (k mod ceil_div W Tw) * Tw \<and>
           unat (y_offset (CreateChunks cfg s ! k)) = (k div ceil_div W Tw) * Th \<and>
           unat (StreamingChunk.width (CreateChunks cfg s ! k))
             = min Tw (W - (k mod ceil_div W Tw) * Tw) \<and>
           unat (StreamingChunk.height (CreateChunks cfg s ! k))
             = min Th (H - (k div ceil_div W Tw) * Th) \<and>
           chunk_id (CreateChunks cfg s ! k) = of_nat k \<and>
           (is_final_chunk (CreateChunks cfg s ! k) \<longleftrightarrow> k = ceil_div W Tw * ceil_div H Th - 1)"
proof -
  define cx where "cx = (ScreenshotResult.width s + chunk_width cfg - 1) div chunk_width cfg"
  define cy where "cy = (ScreenshotResult.height s + chunk_height cfg - 1) div chunk_height cfg"
  have cx: "unat cx = ceil_div W Tw"
    unfolding cx_def W_def Tw_def by (rule axis_count [OF tw]) (use nw in \<open>simp add: W_def Tw_def\<close>)
  have cy: "unat cy = ceil_div H Th"
    unfolding cy_def H_def Th_def by (rule axis_count [OF th]) (use nh in \<open>simp add: H_def Th_def\<close>)
  have cs: "CreateChunks cfg s =
              map (\<lambda>k. make_chunk cfg s cx cy (of_nat (k mod unat cx)) (of_nat (k div unat cx)) (of_nat k))
                [0 ..< unat cy * unat cx]"
    by (simp add: CreateChunks_as_map Let_def cx_def cy_def)
  show len: "length (CreateChunks cfg s) = ceil_div W Tw * ceil_div H Th"
    by (simp add: cs cx cy mult.commute)
  assume k: "k < ceil_div W Tw * ceil_div H Th"
  then have pos: "0 < ceil_div W Tw" by (cases "ceil_div W Tw") auto
  define i where "i = k mod ceil_div W Tw"
  define j where "j = k div ceil_div W Tw"
  have i: "i < ceil_div W Tw" using pos by (simp add: i_def)
  have j: "j < ceil_div H Th"
    using k by (simp add: j_def less_mult_imp_div_less mult.commute)
  have nth: "CreateChunks cfg s ! k = make_chunk cfg s cx cy (of_nat i) (of_nat j) (of_nat k)"
    using k by (simp add: cs cx cy i_def j_def mult.commute)
  have last: "(i = ceil_div W Tw - 1 \<and> j = ceil_div H Th - 1) \<longleftrightarrow> k = ceil_div W Tw * ceil_div H Th - 1"
  proof
    assume "i = ceil_div W Tw - 1 \<and> j = ceil_div H Th - 1"
    moreover have "k = j * ceil_div W Tw + i"
      unfolding i_def j_def by (rule div_mult_mod_eq [symmetric])
    ultimately show "k = ceil_div W Tw * ceil_div H Th - 1"
      using pos j by (cases "ceil_div W Tw"; cases "ceil_div H Th") (simp_all add: algebra_simps)
  next
    assume e: "k = ceil_div W Tw * ceil_div H Th - 1"
    obtain a where a: "ceil_div W Tw = Suc a" using pos by (cases "ceil_div W Tw") auto
    obtain b where b: "ceil_div H Th = Suc b" using j by (cases "ceil_div H Th") auto
    define n where "n = Suc a"
    have an: "a < n" by (simp add: n_def)
    have kk: "k = a + n * b" using e by (simp add: a b n_def algebra_simps)
    have "(a + n * b) mod n = a mod n" by (rule mod_mult_self2)
    moreover have "(a + n * b) div n = b + a div n"
      using an by simp
    ultimately have "k mod Suc a = a" "k div Suc a = b"
      using an kk by (simp_all add: n_def)
    then show "i = ceil_div W Tw - 1 \<and> j = ceil_div H Th - 1"
      by (simp add: i_def j_def a b)
  qed
  have fin: "(of_nat i = cx - 1 \<and> of_nat j = cy - 1) \<longleftrightarrow> k = ceil_div W Tw * ceil_div H Th - 1"
    using axis_last [of i cx] axis_last [of j cy] i j last by (simp add: cx cy)
  show "unat (x_offset (CreateChunks cfg s ! k)) = (k mod ceil_div W Tw) * Tw \<and>
        unat (y_offset (CreateChunks cfg s ! k)) = (k div ceil_div W Tw) * Th \<and>
        unat (StreamingChunk.width (CreateChunks cfg s ! k))
          = min Tw (W - (k mod ceil_div W Tw) * Tw) \<and>
        unat (StreamingChunk.height (CreateChunks cfg s ! k))
          = min Th (H - (k div ceil_div W Tw) * Th) \<and>
        chunk_id (CreateChunks cfg s ! k) = of_nat k \<and>
        (is_final_chunk (CreateChunks cfg s ! k) \<longleftrightarrow> k = ceil_div W Tw * ceil_div H Th - 1)"
    using axis_tile [OF tw, of i "ScreenshotResult.width s"]
      axis_tile [OF th, of j "ScreenshotResult.height s"] i j fin
    unfolding nth
    by (simp add: make_chunk_def Let_def W_def H_def Tw_def Th_def i_def j_def)
qed


lemma covers_iff:
  fixes cfg :: PipelineConfig and s :: ScreenshotResult
  defines "W \<equiv> unat (ScreenshotResult.width s)" and "H \<equiv> unat (ScreenshotResult.height s)"
    and "Tw \<equiv> unat (chunk_width cfg)" and "Th \<equiv> unat (chunk_height cfg)"
  assumes tw: "0 < chunk_width cfg" and th: "0 < chunk_height cfg"
    and nw: "W + Tw - 1 < 2 ^ 32" and nh: "H + Th - 1 < 2 ^ 32"
    and k: "k < length (CreateChunks cfg s)"
  shows "covers (CreateChunks cfg s ! k) px py \<longleftrightarrow>
           px < W \<and> py < H \<and> k = py div Th * ceil_div W Tw + px div Tw"
proof -
  let ?n = "ceil_div W Tw"
  define i where "i = k mod ?n"
  define j where "j = k div ?n"
  have Tw: "0 < Tw" using tw by (simp add: Tw_def word_less_nat_alt)
  have Th: "0 < Th" using th by (simp add: Th_def word_less_nat_alt)
  have len: "length (CreateChunks cfg s) = ?n * ceil_div H Th"
    using CreateChunks_fields(1) [OF tw th] nw nh by (simp add: W_def H_def Tw_def Th_def)
  with k have k': "k < ?n * ceil_div H Th" by simp
  then have pos: "0 < ?n" by (cases "?n") auto
  have i: "i < ?n" using pos by (simp add: i_def)
  have j: "j < ceil_div H Th"
    using k' by (simp add: j_def less_mult_imp_div_less mult.commute)
  have kij: "k = j * ?n + i"
    unfolding i_def j_def by (rule div_mult_mod_eq [symmetric])
  have f: "unat (x_offset (CreateChunks cfg s ! k)) = i * Tw"
    "unat (y_offset (CreateChunks cfg s ! k)) = j * Th"
    "unat (StreamingChunk.width (CreateChunks cfg s ! k)) = min Tw (W - i * Tw)"
    "unat (StreamingChunk.height (CreateChunks cfg s ! k)) = min Th (H - j * Th)"
    using CreateChunks_fields(2) [OF tw th, of s k] nw nh k'
    by (simp_all add: W_def H_def Tw_def Th_def i_def j_def)
  have iW: "i * Tw < W" by (rule tile_start_inside [OF Tw i])
  have jH: "j * Th < H" by (rule tile_start_inside [OF Th j])
  show ?thesis
  proof
    assume c: "covers (CreateChunks cfg s ! k) px py"
    then have x: "i * Tw \<le> px" "px < i * Tw + min Tw (W - i * Tw)"
      and y: "j * Th \<le> py" "py < j * Th + min Th (H - j * Th)"
      by (simp_all add: covers_def f)
    have "i = px div Tw" by (rule tile_unique [OF Tw x])
    moreover have "j = py div Th" by (rule tile_unique [OF Th y])
    moreover have "px < W" using x(2) iW by (simp add: min_def split: if_splits)
    moreover have "py < H" using y(2) jH by (simp add: min_def split: if_splits)
    ultimately show "px < W \<and> py < H \<and> k = py div Th * ?n + px div Tw"
      using kij by simp
  next
    assume a: "px < W \<and> py < H \<and> k = py div Th * ?n + px div Tw"
    have "px div Tw < ?n" using a by (intro tile_of_pixel [OF Tw]) simp
    with a have ij: "i = px div Tw" "j = py div Th"
      by (simp_all add: i_def j_def)
    have "covers (CreateChunks cfg s ! k) px py \<longleftrightarrow>
            i * Tw \<le> px \<and> px < i * Tw + min Tw (W - i * Tw) \<and>
            j * Th \<le> py \<and> py < j * Th + min Th (H - j * Th)"
      by (simp only: covers_def f)
    then show "covers (CreateChunks cfg s ! k) px py"
      using tile_contains_pixel [OF Tw, of px W] tile_contains_pixel [OF Th, of py H] a ij
      by simp
  qed
qed

lemma CreateChunks_tiles_frame:
  fixes cfg :: PipelineConfig and s :: ScreenshotResult
  defines "W \<equiv> unat (ScreenshotResult.width s)" and "H \<equiv> unat (ScreenshotResult.height s)"
    and "Tw \<equiv> unat (chunk_width cfg)" and "Th \<equiv> unat (chunk_height cfg)"
  assumes tw: "0 < chunk_width cfg" and th: "0 < chunk_height cfg"
    and nw: "W + Tw - 1 < 2 ^ 32" and nh: "H + Th - 1 < 2 ^ 32"
  shows "(\<exists>k < length (CreateChunks cfg s). covers (CreateChunks cfg s ! k) px py)
           \<longleftrightarrow> px < W \<and> py < H"
    and "k < length (CreateChunks cfg s) \<Longrightarrow> k' < length (CreateChunks cfg s) \<Longrightarrow>
         covers (CreateChunks cfg s ! k) px py \<Longrightarrow> covers (CreateChunks cfg s ! k') px py \<Longrightarrow>
         k = k'"
proof -
  note iff = covers_iff [OF tw th, of s, folded W_def H_def Tw_def Th_def, OF nw nh]
  have Tw: "0 < Tw" using tw by (simp add: Tw_def word_less_nat_alt)
  have Th: "0 < Th" using th by (simp add: Th_def word_less_nat_alt)
  have len: "length (CreateChunks cfg s) = ceil_div W Tw * ceil_div H Th"
    using CreateChunks_fields(1) [OF tw th] nw nh by (simp add: W_def H_def Tw_def Th_def)
  show "(\<exists>k < length (CreateChunks cfg s). covers (CreateChunks cfg s ! k) px py)
           \<longleftrightarrow> px < W \<and> py < H"
  proof
    assume "\<exists>k < length (CreateChunks cfg s). covers (CreateChunks cfg s ! k) px py"
    then show "px < W \<and> py < H" using iff by blast
  next
    assume a: "px < W \<and> py < H"
    let ?k = "py div Th * ceil_div W Tw + px div Tw"
    have i: "px div Tw < ceil_div W Tw" using a by (intro tile_of_pixel [OF Tw]) simp
    have j: "py div Th < ceil_div H Th" using a by (intro tile_of_pixel [OF Th]) simp
    have "?k < Suc (py div Th) * ceil_div W Tw" using i by simp
    also have "\<dots> \<le> ceil_div H Th * ceil_div W Tw"
      using j by (intro mult_le_mono1) simp
    finally have "?k < length (CreateChunks cfg s)" by (simp add: len mult.commute)
    then show "\<exists>k < length (CreateChunks cfg s). covers (CreateChunks cfg s ! k) px py"
      using iff [of ?k px py] a by blast
  qed
  show "k < length (CreateChunks cfg s) \<Longrightarrow> k' < length (CreateChunks cfg s) \<Longrightarrow>
         covers (CreateChunks cfg s ! k) px py \<Longrightarrow> covers (CreateChunks cfg s ! k') px py \<Longrightarrow>
         k = k'"
    using iff [of k px py] iff [of k' px py] by simp
qed

text \<open>
  C1. The claim asks for \<open>ceil(W/Tw) * ceil(H/Th)\<close> chunks for every frame and every tile
  size of at least 64. The code computes each count as \<open>(extent + tile - 1) / tile\<close> in
  \<open>uint32_t\<close>, and the sum wraps once \<open>extent + tile - 1\<close> reaches \<open>2^32\<close>. With the
  tile size set to \<open>4294967295\<close> by \<open>SetChunkSize\<close> (which only clamps from below) and
  the 8K frame, \<open>7680 + 4294967295 - 1\<close> wraps to 7678, both counts are 0 and
  \<open>CreateChunks\<close> returns no chunk at all, where one chunk covering the frame is due.
  The lemmas above show that without the wrap the chunks are exactly the claimed grid.
\<close>

theorem CreateChunks_wraps_to_no_chunks:
  "chunk_width (SetChunkSize 4294967295 4294967295 default_config) = 4294967295 \<and>
   chunk_height (SetChunkSize 4294967295 4294967295 default_config) = 4294967295 \<and>
   ScreenshotResult.width frame_8k = 7680 \<and> ScreenshotResult.height frame_8k = 4320 \<and>
   CreateChunks (SetChunkSize 4294967295 4294967295 default_config) frame_8k = [] \<and>
   ceil_div 7680 4294967295 * ceil_div 4320 4294967295 = 1"
  by (simp add: CreateChunks_def SetChunkSize_def default_config_def frame_8k_def Let_def
      ceil_div_def)


section \<open>Progress callbacks\<close>





lemma run_in_terms_of_submission:
  fixes env cfg ps shot
  defines "m \<equiv> min (ucast (worker_thread_count cfg * 2) :: u64)
      (max_memory_usage_mb cfg * 1024 * 1024 div ucast (chunk_width cfg * chunk_height cfg * 4))"
  defines "L \<equiv> \<lambda>cbx. notify cbx 20
      (''Created '' @ to_string (length (CreateChunks cfg shot)) @ '' chunks for processing'')
      (notify cbx 15 ''Starting ultra-streaming pipeline''
        (notify cbx 10 ''Capture completed, starting streaming encode'' []))"
  defines "X \<equiv> \<lambda>cbx. submit_loop env cfg m ps cbx (length (CreateChunks cfg shot))
      (CreateChunks cfg shot) \<lparr> taken = [], tasks = [], cb_calls = L cbx \<rparr>"
  assumes shot: "capture_display env d = Inr shot" and ok: "success shot"
    and big: "\<not> (ucast (ScreenshotResult.width shot) :: u64) * ucast (ScreenshotResult.height shot)
                 < 7680 * 4320"
    and div: "chunk_width cfg * chunk_height cfg * 4 \<noteq> 0"
  shows "StreamCaptureAndEncode env cfg d ps cbx =
      (case fst (X cbx) of
         WaitsForever \<Rightarrow> Inl NeverAdmitted
       | Raised what \<Rightarrow>
           Inr \<lparr> result = [], submitted = tasks (snd (X cbx)),
                 progress = notify cbx 0 (''Error: '' @ what) (cb_calls (snd (X cbx))) \<rparr>
       | AllSubmitted \<Rightarrow>
           if tasks (snd (X cbx)) \<noteq> [] \<and> \<not> has_workers cfg then Inl NeverCompleted
           else
             (case collect (future_error_what env)
                     (zip (taken (snd (X cbx))) (map (task_outcome env) (tasks (snd (X cbx))))) of
                Inl what \<Rightarrow>
                  Inr \<lparr> result = [], submitted = tasks (snd (X cbx)),
                        progress = notify cbx 0 (''Error: '' @ what)
                          (notify cbx 80 ''Waiting for all chunks to complete'' (cb_calls (snd (X cbx)))) \<rparr>
              | Inr encoded_chunks \<Rightarrow>
                  Inr \<lparr> result = CombineEncodedChunks encoded_chunks
                                   (ScreenshotResult.width shot) (ScreenshotResult.height shot),
                        submitted = tasks (snd (X cbx)),
                        progress = notify cbx 100 ''Ultra-streaming encoding completed''
                          (notify cbx 90 ''Combining encoded chunks''
                            (notify cbx 80 ''Waiting for all chunks to complete''
                               (cb_calls (snd (X cbx))))) \<rparr>))"
  using shot ok big div
  unfolding StreamCaptureAndEncode_def Let_def X_def L_def m_def
  by (simp add: split_beta split: submit_status.splits sum.splits)




lemma drain_none_ready:
  "\<forall>i. \<not> ready i \<Longrightarrow> drain fe ready i (zip (replicate k False) rs)
     = Inr (replicate (min k (length rs)) False)"
proof (induction k arbitrary: i rs)
  case 0
  then show ?case by simp
next
  case (Suc k)
  then show ?case by (cases rs) simp_all
qed


lemma submit_loop_all_submitted:
  assumes "\<forall>k. \<forall>c \<in> set cs. CanAllocateMemory cfg (memory_seen env k) (chunk_bytes c)"
    and "\<forall>n i. \<not> future_ready env n i"
    and "taken st = replicate (length (tasks st)) False"
  shows "fst (submit_loop env cfg m ps cb n cs st) = AllSubmitted \<and>
         tasks (snd (submit_loop env cfg m ps cb n cs st))
           = tasks st @ map (\<lambda>(k, c). \<lparr> chunk = c, params = ps, task_id = of_nat k \<rparr>)
                          (zip [length (tasks st) ..< length (tasks st) + length cs] cs) \<and>
         taken (snd (submit_loop env cfg m ps cb n cs st))
           = replicate (length (tasks st) + length cs) False"
  using assms
proof (induction cs arbitrary: st)
  case Nil
  then show ?case by simp
next
  case (Cons c cs)
  let ?t = "\<lparr> chunk = c, params = ps, task_id = of_nat (length (tasks st)) \<rparr>"
  let ?k = "length (tasks st) + 1"
  define s1 where "s1 = st\<lparr> tasks := tasks st @ [?t], taken := taken st @ [False],
      cb_calls := notify cb (20 + (real ?k / real n) * 60)
        (''Processing chunk '' @ to_string ?k @ ''/'' @ to_string n) (cb_calls st) \<rparr>"
  have adm: "CanAllocateMemory cfg (memory_seen env (length (tasks st))) (chunk_bytes c)"
    using Cons.prems(1) by simp
  have tk: "taken s1 = replicate (length (tasks s1)) False"
    using Cons.prems(3) by (simp add: s1_def replicate_append_same)
  have "drain (future_error_what env) (\<lambda>i. has_workers cfg \<and> future_ready env ?k i) 0
          (zip (taken s1) (map (task_outcome env) (tasks s1))) = Inr (taken s1)"
    unfolding tk by (subst drain_none_ready) (use Cons.prems(2) in simp_all)
  then have dr: "drain (future_error_what env)
                   (\<lambda>i. has_workers cfg \<and> future_ready env (Suc (length (tasks st))) i) 0
                   (zip (taken st @ [False]) (map (task_outcome env) (tasks st @ [?t])))
                   = Inr (taken st @ [False])"
    by (simp add: s1_def)
  have step: "submit_loop env cfg m ps cb n (c # cs) st = submit_loop env cfg m ps cb n cs s1"
    unfolding s1_def
    using dr
    by (auto simp: Let_def adm
        intro!: arg_cong [where f = "submit_loop env cfg m ps cb n cs"] SubmitState.equality)
  have ih: "fst (submit_loop env cfg m ps cb n cs s1) = AllSubmitted \<and>
         tasks (snd (submit_loop env cfg m ps cb n cs s1))
           = tasks s1 @ map (\<lambda>(k, c). \<lparr> chunk = c, params = ps, task_id = of_nat k \<rparr>)
                          (zip [length (tasks s1) ..< length (tasks s1) + length cs] cs) \<and>
         taken (snd (submit_loop env cfg m ps cb n cs s1))
           = replicate (length (tasks s1) + length cs) False"
    by (rule Cons.IH) (use Cons.prems tk in simp_all)
  have len: "length (tasks s1) = Suc (length (tasks st))" by (simp add: s1_def)
  have upt: "[length (tasks st) ..< length (tasks st) + length (c # cs)]
               = length (tasks st) # [Suc (length (tasks st)) ..< Suc (length (tasks st)) + length cs]"
    by (simp add: upt_rec)
  have t1: "tasks s1 = tasks st @ [?t]" by (simp add: s1_def)
  from ih have a: "fst (submit_loop env cfg m ps cb n cs s1) = AllSubmitted"
    and b: "tasks (snd (submit_loop env cfg m ps cb n cs s1))
              = (tasks st @ [?t]) @ map (\<lambda>(k, c). \<lparr> chunk = c, params = ps, task_id = of_nat k \<rparr>)
                  (zip [Suc (length (tasks st)) ..< Suc (length (tasks st)) + length cs] cs)"
    and c: "taken (snd (submit_loop env cfg m ps cb n cs s1))
              = replicate (Suc (length (tasks st)) + length cs) False"
    by (simp_all add: t1)
  show ?case
    unfolding step a b c upt by simp
qed


lemma unat_ucast_32_64: "unat (ucast (x :: u32) :: u64) = unat x"
proof -
  have "unat x < 2 ^ 32" using unsigned_less [of x] by simp
  then have "unat x < 2 ^ 64" by simp
  then show ?thesis
    by (simp add: unsigned_ucast_eq take_bit_nat_eq_self)
qed

lemma chunks_admissible:
  fixes cfg :: PipelineConfig and s :: ScreenshotResult
  assumes tw: "0 < chunk_width cfg" and th: "0 < chunk_height cfg"
    and nw: "unat (ScreenshotResult.width s) + unat (chunk_width cfg) - 1 < 2 ^ 32"
    and nh: "unat (ScreenshotResult.height s) + unat (chunk_height cfg) - 1 < 2 ^ 32"
    and fit: "unat (chunk_width cfg) * unat (chunk_height cfg) * 4 < 2 ^ 32"
    and budget: "unat (chunk_width cfg) * unat (chunk_height cfg) * 4
                   \<le> unat (max_memory_usage_mb cfg * 1024 * 1024)"
    and c: "c \<in> set (CreateChunks cfg s)"
  shows "CanAllocateMemory cfg 0 (chunk_bytes c)"
proof -
  let ?W = "unat (ScreenshotResult.width s)" and ?H = "unat (ScreenshotResult.height s)"
  let ?Tw = "unat (chunk_width cfg)" and ?Th = "unat (chunk_height cfg)"
  from c obtain k where k: "k < length (CreateChunks cfg s)" and ck: "c = CreateChunks cfg s ! k"
    by (auto simp: in_set_conv_nth)
  have len: "length (CreateChunks cfg s) = ceil_div ?W ?Tw * ceil_div ?H ?Th"
    by (rule CreateChunks_fields(1) [OF tw th nw nh])
  from CreateChunks_fields(2) [OF tw th nw nh, of k] k len
  have w: "unat (StreamingChunk.width c) \<le> ?Tw" and h: "unat (StreamingChunk.height c) \<le> ?Th"
    by (simp_all add: ck)
  have "unat (StreamingChunk.width c) * unat (StreamingChunk.height c) \<le> ?Tw * ?Th"
    using w h by (rule mult_le_mono)
  then have le: "unat (StreamingChunk.width c) * unat (StreamingChunk.height c) * 4 \<le> ?Tw * ?Th * 4"
    by simp
  have "StreamingChunk.width c * StreamingChunk.height c * 4
          = (of_nat (unat (StreamingChunk.width c) * unat (StreamingChunk.height c) * 4) :: u32)"
    by simp
  then have "unat (StreamingChunk.width c * StreamingChunk.height c * 4)
          = (unat (StreamingChunk.width c) * unat (StreamingChunk.height c) * 4) mod 2 ^ 32"
    by (simp only: unat_of_nat) simp
  with le fit have "unat (StreamingChunk.width c * StreamingChunk.height c * 4) \<le> ?Tw * ?Th * 4"
    by simp
  then have "unat (chunk_bytes c) \<le> ?Tw * ?Th * 4"
    by (simp add: chunk_bytes_def unat_ucast_32_64)
  with budget show ?thesis
    by (simp add: CanAllocateMemory_def Let_def word_le_nat_alt)
qed




lemma chunks_8k:
  "length (CreateChunks config_4096 frame_8k) = 4"
  "list_all (\<lambda>c. CanAllocateMemory config_4096 0 (chunk_bytes c)) (CreateChunks config_4096 frame_8k)"
proof -
  have cfg: "chunk_width config_4096 = 4096" "chunk_height config_4096 = 4096"
    "max_memory_usage_mb config_4096 = 1024"
    by (simp_all add: config_4096_def SetChunkSize_def Initialize_def default_config_def)
  have fr: "ScreenshotResult.width frame_8k = 7680" "ScreenshotResult.height frame_8k = 4320"
    by (simp_all add: frame_8k_def)
  show "length (CreateChunks config_4096 frame_8k) = 4"
    by (subst CreateChunks_fields(1)) (simp_all add: cfg fr ceil_div_def)
  have "CanAllocateMemory config_4096 0 (chunk_bytes c)"
    if "c \<in> set (CreateChunks config_4096 frame_8k)" for c
    using that by (rule chunks_admissible [rotated -1]) (simp_all add: cfg fr)
  then show "list_all (\<lambda>c. CanAllocateMemory config_4096 0 (chunk_bytes c))
               (CreateChunks config_4096 frame_8k)"
    by (simp add: list_all_iff)
qed



text \<open>
  Two runs that do not return. With chunks of 65536 x 65536 the product
  \<open>chunk_width_ * chunk_height_ * 4\<close> is zero in \<open>uint32_t\<close> and the run divides by it.
  On a pipeline that was never initialised no worker thread exists, the four tasks stay
  in the queue and the first \<open>future.get()\<close> blocks.
\<close>

lemma run_divides_by_zero:
  "StreamCaptureAndEncode env_8k (SetChunkSize 65536 65536 config_4096) 0 default_params cb
     = Inl DivisionByZero"
proof -
  have z: "chunk_width (SetChunkSize 65536 65536 config_4096)
             * chunk_height (SetChunkSize 65536 65536 config_4096) * 4 = 0"
    by (simp add: SetChunkSize_def word_unat_eq_iff)
  have f: "success frame_8k"
    "\<not> (ucast (ScreenshotResult.width frame_8k) :: u64) * ucast (ScreenshotResult.height frame_8k)
         < 7680 * 4320"
    by (simp_all add: frame_8k_def)
  show ?thesis
    using f z unfolding StreamCaptureAndEncode_def Let_def
    by (simp add: env_8k_def)
qed

lemma run_without_workers_never_completes:
  "StreamCaptureAndEncode env_8k (SetChunkSize 4096 4096 default_config) 0 default_params cb
     = Inl NeverCompleted"
proof -
  let ?cfg = "SetChunkSize 4096 4096 default_config"
  have same: "CreateChunks ?cfg frame_8k = CreateChunks config_4096 frame_8k"
    by (simp add: CreateChunks_def make_chunk_def config_4096_def SetChunkSize_def Initialize_def
        default_config_def)
  have adm: "CanAllocateMemory ?cfg u b = CanAllocateMemory config_4096 u b" for u b
    by (simp add: CanAllocateMemory_def config_4096_def SetChunkSize_def Initialize_def
        default_config_def)
  have shot: "capture_display env_8k 0 = Inr frame_8k" by (simp add: env_8k_def)
  have f: "success frame_8k"
    "\<not> (ucast (ScreenshotResult.width frame_8k) :: u64) * ucast (ScreenshotResult.height frame_8k)
         < 7680 * 4320"
    "chunk_width ?cfg * chunk_height ?cfg * 4 \<noteq> 0"
    by (simp_all add: frame_8k_def SetChunkSize_def default_config_def)
  define m where "m = min (ucast (worker_thread_count ?cfg * 2) :: u64)
      (max_memory_usage_mb ?cfg * 1024 * 1024 div ucast (chunk_width ?cfg * chunk_height ?cfg * 4))"
  define st0 where "st0 = \<lparr> taken = [], tasks = [], cb_calls =
      notify cb 20 (''Created '' @ to_string (length (CreateChunks ?cfg frame_8k))
                      @ '' chunks for processing'')
        (notify cb 15 ''Starting ultra-streaming pipeline''
          (notify cb 10 ''Capture completed, starting streaming encode'' [])) \<rparr>"
  define X where "X = submit_loop env_8k ?cfg m default_params cb
      (length (CreateChunks ?cfg frame_8k)) (CreateChunks ?cfg frame_8k) st0"
  have h: "\<forall>k. \<forall>c \<in> set (CreateChunks ?cfg frame_8k).
             CanAllocateMemory ?cfg (memory_seen env_8k k) (chunk_bytes c)"
    using chunks_8k(2) by (simp add: same adm list_all_iff env_8k_def)
  have "taken st0 = replicate (length (tasks st0)) False" by (simp add: st0_def)
  with h have X: "fst X = AllSubmitted" "length (tasks (snd X)) = 4"
    using submit_loop_all_submitted
      [of "CreateChunks ?cfg frame_8k" ?cfg env_8k st0 m default_params cb
          "length (CreateChunks ?cfg frame_8k)"] chunks_8k(1)
    by (simp_all add: X_def st0_def same env_8k_def)
  from X(2) have ne: "tasks (snd X) \<noteq> []" by auto
  have nw: "\<not> has_workers ?cfg"
    by (simp add: has_workers_def SetChunkSize_def default_config_def)
  show ?thesis
    using X(1) ne nw unfolding X_def st0_def m_def
    by (subst run_in_terms_of_submission [OF shot f]) simp
qed





section \<open>Zero-copy buffer lifetime\<close>

lemma Release_runs_deleter_at_one:
  assumes "objects h b = Some obj" and "b \<notin> made_shared h"
  shows "\<exists>h'. Release b h = Some h' \<and>
              deleter_runs h' = deleter_runs h @
                (if ref_count obj = 1 then (case deleter obj of None \<Rightarrow> [] | Some f \<Rightarrow> [f]) else []) \<and>
              (objects h' b = None \<longleftrightarrow> ref_count obj = 1)"
  using assms by (simp add: Release_def destroy_buffer_def Let_def)

lemma Release_leaves_other_objects:
  assumes "Release b h = Some h'" and "b' \<noteq> b"
  shows "objects h' b' = objects h b'"
  using assms
  by (auto simp: Release_def destroy_buffer_def Let_def split: option.splits if_splits)

lemma Release_of_last_count_on_make_shared_object:
  assumes "objects h b = Some obj" and "b \<in> made_shared h" and "ref_count obj = 1"
  shows "Release b h = None"
  using assms by (simp add: Release_def Let_def)

lemma CreateView_address_wraps:
  "map_option (\<lambda>(v, h). map_option (\<lambda>i. map_option data_ptr (objects h i)) v)
     (CreateView 0 (- 1) 1 (snd (construct_buffer NewExpression 1000 64 None empty_store)))
   = Some (Some (Some 999))"
  by (simp add: CreateView_def construct_buffer_def AddRef_def empty_store_def Let_def)

text \<open>
  C2. A parent buffer with release callback 7 is created (object 0), by a
  \<open>new\<close>-expression or by \<open>make_shared\<close>, and a view of its first 16 bytes is taken
  (object 1): the parent's count is 2 and the view's is 1, as the claim says. The holder
  of the view lets go of it, which ends the view: the parent's count is still 2, because
  the view keeps no reference to its parent and has no deleter. After the parent's
  holder has called \<open>Release\<close> as well, the count is 1, the parent still exists and its
  callback has not run, although the parent and its only view have both been released.
\<close>

theorem view_release_never_reaches_parent:
  "lifetime_view (zc_run [Create kind 1000 64 (Some 7), View 0 0 16] empty_store)
     = Some ([], Some 2, Some 1) \<and>
   lifetime_view (zc_run [Create kind 1000 64 (Some 7), View 0 0 16, Drop 1] empty_store)
     = Some ([], Some 2, None) \<and>
   lifetime_view (zc_run [Create kind 1000 64 (Some 7), View 0 0 16, Drop 1, Rel 0] empty_store)
     = Some ([], Some 1, None)"
  by (simp add: lifetime_view_def empty_store_def construct_buffer_def CreateView_def AddRef_def
      Release_def drop_shared_ptr_def destroy_buffer_def Let_def)


section \<open>Memory admission\<close>

lemma submission_is_gated:
  assumes "pipe_step cfg Submit s = Some s'"
  shows "\<exists>b rest. pending s = b # rest \<and>
                  current_memory_usage s + b \<le> max_memory_usage_mb cfg * 1024 * 1024 \<and>
                  pending s' = rest \<and> task_queue s' = task_queue s @ [b] \<and>
                  current_memory_usage s' = current_memory_usage s"
  using assms
  by (cases "pending s") (auto simp: CanAllocateMemory_def Let_def split: if_splits)

lemma sleeping_changes_nothing:
  assumes "pipe_step cfg Sleep s = Some s'"
  shows "s' = s \<and> (\<exists>b rest. pending s = b # rest \<and>
                  \<not> current_memory_usage s + b \<le> max_memory_usage_mb cfg * 1024 * 1024)"
  using assms
  by (cases "pending s") (auto simp: CanAllocateMemory_def Let_def split: if_splits)

lemma two_chunks:
  "map chunk_bytes (CreateChunks config_one_chunk frame_two_chunks) = [268435456, 268435456]"
proof -
  have cfg: "chunk_width config_one_chunk = 8192" "chunk_height config_one_chunk = 8192"
    by (simp_all add: config_one_chunk_def SetChunkSize_def SetMaxMemoryUsage_def Initialize_def
        default_config_def)
  have fr: "ScreenshotResult.width frame_two_chunks = 16384"
    "ScreenshotResult.height frame_two_chunks = 8192"
    by (simp_all add: frame_two_chunks_def)
  let ?cs = "CreateChunks config_one_chunk frame_two_chunks"
  have len: "length ?cs = 2"
    by (subst CreateChunks_fields(1)) (simp_all add: cfg fr ceil_div_def)
  have f: "unat (StreamingChunk.width (?cs ! k)) = 8192 \<and> unat (StreamingChunk.height (?cs ! k)) = 8192"
    if "k < 2" for k
  proof -
    have "k = 0 \<or> k = 1" using that by auto
    then show ?thesis
      using CreateChunks_fields(2) [of config_one_chunk frame_two_chunks k]
      by (auto simp: cfg fr ceil_div_def)
  qed
  have w: "StreamingChunk.width (?cs ! k) = 8192 \<and> StreamingChunk.height (?cs ! k) = 8192"
    if "k < 2" for k
    using f [OF that] by (simp add: word_unat_eq_iff)
  have "chunk_bytes (?cs ! k) = 268435456" if "k < 2" for k
    using w [OF that] by (simp add: chunk_bytes_def)
  then have "map chunk_bytes ?cs = [268435456, 268435456]"
    using len by (intro nth_equalityI) (auto simp: less_Suc_eq numeral_2_eq_2)
  then show ?thesis .
qed

text \<open>
  C5. The submitter does test \<open>current + chunk bytes \<le> budget\<close> before every push and
  sleeps while the test fails (the two lemmas above). That does not bound the counter.
  With the budget equal to one chunk (256 MB), the submitter admits both chunks of
  the frame back to back: the counter it tests is raised only when a worker enters
  \<open>ProcessEncodingTask\<close>, so it still reads 0 at the second test and the second
  submission does not wait for the first task. Once the two workers have taken one task
  each, the counter stands at 512 MB, twice the budget; the peak statistic records it.
\<close>

theorem budget_exceeded_by_two_workers:
  "max_memory_usage_mb config_one_chunk * 1024 * 1024 = 268435456 \<and>
   map_option (\<lambda>s. (pending s, task_queue s, current_memory_usage s))
     (pipe_run config_one_chunk [Submit, Submit]
        (start_state config_one_chunk frame_two_chunks))
     = Some ([], [268435456, 268435456], 0) \<and>
   map_option (\<lambda>s. (workers s, current_memory_usage s, peak_memory_usage_mb s))
     (pipe_run config_one_chunk [Submit, Submit, Pop 0, Pop 1, Begin 0, Begin 1]
        (start_state config_one_chunk frame_two_chunks))
     = Some ([Encoding 268435456, Encoding 268435456], 536870912, 512)"
proof -
  have cfg: "max_memory_usage_mb config_one_chunk = 256" "worker_thread_count config_one_chunk = 2"
    by (simp_all add: config_one_chunk_def SetChunkSize_def SetMaxMemoryUsage_def Initialize_def
        default_config_def)
  have st: "start_state config_one_chunk frame_two_chunks =
      \<lparr> pending = [268435456, 268435456], task_queue = [], workers = [Idle, Idle],
        current_memory_usage = 0, peak_memory_usage_mb = 0 \<rparr>"
  proof -
    have "unat (2 :: u32) = Suc (Suc 0)" by simp
    then have "replicate (unat (2 :: u32)) Idle = [Idle, Idle]" by (simp only: replicate.simps)
    then show ?thesis by (simp add: start_state_def two_chunks cfg)
  qed
  show ?thesis
    unfolding st by (simp add: cfg CanAllocateMemory_def UpdateMemoryUsage_def Let_def)
qed


section \<open>Pixel conversion paths\<close>

lemma and_not_mask_shift: "(n AND NOT (mask k) :: u32) = push_bit k (drop_bit k n)"
  by (rule bit_eqI) (auto simp: bit_simps)

lemma unat_align:
  "unat (n AND NOT (mask k) :: u32) = 2 ^ k * (unat n div 2 ^ k)"
proof -
  have "unat (push_bit k (drop_bit k n) :: u32) = take_bit 32 (push_bit k (drop_bit k (unat n)))"
    by (simp add: unsigned_push_bit_eq unat_drop_bit_eq)
  also have "\<dots> = take_bit 32 (2 ^ k * (unat n div 2 ^ k))"
    by (simp add: push_bit_eq_mult drop_bit_eq_div mult.commute)
  also have "\<dots> = 2 ^ k * (unat n div 2 ^ k)"
  proof -
    have "unat n < 2 ^ 32" using unsigned_less [of n] by simp
    moreover have "2 ^ k * (unat n div 2 ^ k) \<le> unat n"
      by (simp add: mult.commute div_times_less_eq_dividend)
    ultimately have "2 ^ k * (unat n div 2 ^ k) < 2 ^ 32" by (rule order_le_less_trans [rotated])
    then show ?thesis by (simp add: take_bit_nat_eq_self)
  qed
  finally show ?thesis by (simp add: and_not_mask_shift)
qed

lemma unat_and_not_3: "unat (n AND NOT 3 :: u32) = 4 * (unat n div 4)"
  using unat_align [of n 2] by (simp add: mask_eq_exp_minus_1)

lemma unat_and_not_7: "unat (n AND NOT 7 :: u32) = 8 * (unat n div 8)"
  using unat_align [of n 3] by (simp add: mask_eq_exp_minus_1)


lemma pixel_index:
  assumes "4 * i + 3 < 2 ^ 32"
  shows "unat (of_nat i * 4 :: u32) = 4 * i"
    and "unat (of_nat i * 4 + 1 :: u32) = 4 * i + 1"
    and "unat (of_nat i * 4 + 2 :: u32) = 4 * i + 2"
    and "unat (of_nat i * 4 + 3 :: u32) = 4 * i + 3"
proof -
  have a: "unat (of_nat i * 4 + of_nat c :: u32) = 4 * i + c" if "c \<le> 3" for c
  proof -
    have "(of_nat i * 4 + of_nat c :: u32) = of_nat (4 * i + c)" by simp
    then have "unat (of_nat i * 4 + of_nat c :: u32) = (4 * i + c) mod 2 ^ 32"
      by (simp only: unat_of_nat) simp
    with assms that show ?thesis by simp
  qed
  show "unat (of_nat i * 4 :: u32) = 4 * i" using a [of 0] by simp
  show "unat (of_nat i * 4 + 1 :: u32) = 4 * i + 1" using a [of 1] by simp
  show "unat (of_nat i * 4 + 2 :: u32) = 4 * i + 2" using a [of 2] by simp
  show "unat (of_nat i * 4 + 3 :: u32) = 4 * i + 3" using a [of 3] by simp
qed

lemma convert_pixel_nat:
  assumes "4 * i + 3 < 2 ^ 32"
  shows "convert_pixel bgra rgba (of_nat i) =
           rgba[4 * i := bgra ! (4 * i + 2), 4 * i + 1 := bgra ! (4 * i + 1),
                4 * i + 2 := bgra ! (4 * i), 4 * i + 3 := bgra ! (4 * i + 3)]"
  by (simp add: convert_pixel_def Let_def pixel_index [OF assms])

lemma upt_16: "[0 ..< 16] = [0, 1, 2, 3, 4, 5, 6, 7, 8, 9, 10, 11, 12, 13, 14, 15 :: nat]"
  by (simp add: upt_rec)

lemma store_bytes_16:
  "store_bytes r off [x0, x1, x2, x3, x4, x5, x6, x7, x8, x9, x10, x11, x12, x13, x14, x15]
     = r[off := x0, off + 1 := x1, off + 2 := x2, off + 3 := x3, off + 4 := x4, off + 5 := x5,
         off + 6 := x6, off + 7 := x7, off + 8 := x8, off + 9 := x9, off + 10 := x10,
         off + 11 := x11, off + 12 := x12, off + 13 := x13, off + 14 := x14, off + 15 := x15]"
  by (simp add: store_bytes_def upt_16 numeral_eq_Suc)

lemma sse2_shuffle:
  "mm_shuffle_epi8 (load_bytes 16 bgra off) [2, 1, 0, 3, 6, 5, 4, 7, 10, 9, 8, 11, 14, 13, 12, 15]
     = [bgra ! (off + 2), bgra ! (off + 1), bgra ! (off + 0), bgra ! (off + 3),
        bgra ! (off + 6), bgra ! (off + 5), bgra ! (off + 4), bgra ! (off + 7),
        bgra ! (off + 10), bgra ! (off + 9), bgra ! (off + 8), bgra ! (off + 11),
        bgra ! (off + 14), bgra ! (off + 13), bgra ! (off + 12), bgra ! (off + 15)]"
  by (simp add: mm_shuffle_epi8_def load_bytes_def)

lemma sse2_step:
  assumes "16 * k + 15 < 2 ^ 32"
  shows "store_bytes rgba (unat (of_nat (4 * k) * 4 :: u32))
           (mm_shuffle_epi8 (load_bytes 16 bgra (unat (of_nat (4 * k) * 4 :: u32)))
              [2, 1, 0, 3, 6, 5, 4, 7, 10, 9, 8, 11, 14, 13, 12, 15])
         = foldl (\<lambda>rgba i. convert_pixel bgra rgba (of_nat i)) rgba
             [4 * k, 4 * k + 1, 4 * k + 2, 4 * k + 3]"
proof -
  have off: "unat (of_nat (4 * k) * 4 :: u32) = 16 * k"
    using pixel_index(1) [of "4 * k"] assms by simp
  have p: "4 * (4 * k) + 3 < 2 ^ 32" "4 * (4 * k + 1) + 3 < 2 ^ 32"
    "4 * (4 * k + 2) + 3 < 2 ^ 32" "4 * (4 * k + 3) + 3 < 2 ^ 32"
    using assms by simp_all
  show ?thesis
    unfolding off sse2_shuffle store_bytes_16 foldl.simps
      convert_pixel_nat [OF p(1)] convert_pixel_nat [OF p(2)]
      convert_pixel_nat [OF p(3)] convert_pixel_nat [OF p(4)]
    by (simp add: add.commute)
qed


lemma upt_four_more: "[0 ..< 4 * Suc m] = [0 ..< 4 * m] @ [4 * m, 4 * m + 1, 4 * m + 2, 4 * m + 3]"
proof -
  have "[0 ..< 4 * m + 4] = [0 ..< 4 * m] @ [4 * m ..< 4 * m + 4]"
    by (rule upt_add_eq_append) simp
  moreover have "[a ..< a + 4] = [a, a + 1, a + 2, a + 3]" for a :: nat
    by (simp add: numeral_eq_Suc upt_rec)
  ultimately have "[0 ..< 4 * m + 4] = [0 ..< 4 * m] @ [4 * m, 4 * m + 1, 4 * m + 2, 4 * m + 3]"
    by (simp only:)
  moreover have "4 * Suc m = 4 * m + 4" by simp
  ultimately show ?thesis by (simp only:)
qed

lemma sse2_vector_loop:
  assumes "16 * m \<le> 2 ^ 32"
  shows "foldl (\<lambda>rgba k.
            store_bytes rgba (unat (of_nat (4 * k) * 4 :: u32))
              (mm_shuffle_epi8 (load_bytes 16 bgra (unat (of_nat (4 * k) * 4 :: u32)))
                 [2, 1, 0, 3, 6, 5, 4, 7, 10, 9, 8, 11, 14, 13, 12, 15]))
           rgba [0 ..< m]
         = foldl (\<lambda>rgba i. convert_pixel bgra rgba (of_nat i)) rgba [0 ..< 4 * m]"
  using assms
proof (induction m)
  case 0
  show ?case by simp
next
  case (Suc m)
  from Suc.prems have k: "16 * m + 15 < 2 ^ 32" and m: "16 * m \<le> 2 ^ 32" by simp_all
  have u: "[0 ..< Suc m] = [0 ..< m] @ [m]" by simp
  show ?case
    unfolding upt_four_more u foldl_append Suc.IH [OF m]
    by (simp only: foldl.simps sse2_step [OF k])
qed

lemma align_le: "unat (n AND NOT (mask k) :: u32) \<le> unat n"
  by (simp add: unat_align mult.commute div_times_less_eq_dividend)

lemma scalar_loop_split:
  assumes "unat first \<le> unat n"
  shows "scalar_loop bgra (foldl (\<lambda>rgba i. convert_pixel bgra rgba (of_nat i)) rgba [0 ..< unat first])
           first n
         = ConvertBGRAToRGBA_C bgra rgba n"
proof -
  have "[0 ..< unat first + (unat n - unat first)]
          = [0 ..< unat first] @ [unat first ..< unat first + (unat n - unat first)]"
    by (rule upt_add_eq_append) simp
  with assms have "[0 ..< unat n] = [0 ..< unat first] @ [unat first ..< unat n]"
    by simp
  then show ?thesis
    by (simp add: ConvertBGRAToRGBA_C_def scalar_loop_def)
qed

lemma sse2_equals_scalar:
  assumes "4 * unat n \<le> 2 ^ 32"
  shows "ConvertBGRAToRGBA_SSE2 bgra rgba n = ConvertBGRAToRGBA_C bgra rgba n"
proof -
  define sp where "sp = n AND NOT 3"
  have sp: "unat sp = 4 * (unat n div 4)" unfolding sp_def by (rule unat_and_not_3)
  have le: "unat sp \<le> unat n" unfolding sp by (simp add: mult.commute div_times_less_eq_dividend)
  have b: "16 * (unat n div 4) \<le> 2 ^ 32"
  proof -
    have "4 * (unat n div 4) \<le> unat n" by (simp add: mult.commute div_times_less_eq_dividend)
    with assms show ?thesis by simp
  qed
  have "ConvertBGRAToRGBA_SSE2 bgra rgba n =
          scalar_loop bgra
            (foldl (\<lambda>rgba k.
                store_bytes rgba (unat (of_nat (4 * k) * 4 :: u32))
                  (mm_shuffle_epi8 (load_bytes 16 bgra (unat (of_nat (4 * k) * 4 :: u32)))
                     [2, 1, 0, 3, 6, 5, 4, 7, 10, 9, 8, 11, 14, 13, 12, 15]))
               rgba [0 ..< unat n div 4])
            sp n"
    unfolding ConvertBGRAToRGBA_SSE2_def vector_loop_def Let_def sp_def [symmetric]
    by (simp add: sp)
  also have "\<dots> = scalar_loop bgra
            (foldl (\<lambda>rgba i. convert_pixel bgra rgba (of_nat i)) rgba [0 ..< unat sp]) sp n"
    by (simp only: sse2_vector_loop [OF b] sp)
  also have "\<dots> = ConvertBGRAToRGBA_C bgra rgba n"
    by (rule scalar_loop_split [OF le])
  finally show ?thesis .
qed


lemma upt_32:
  "[0 ..< 32] = [0, 1, 2, 3, 4, 5, 6, 7, 8, 9, 10, 11, 12, 13, 14, 15, 16, 17, 18, 19, 20, 21,
                22, 23, 24, 25, 26, 27, 28, 29, 30, 31 :: nat]"
  by (simp add: upt_rec)

lemma store_bytes_32:
  "store_bytes r off [x0, x1, x2, x3, x4, x5, x6, x7, x8, x9, x10, x11, x12, x13, x14, x15, x16, x17, x18, x19, x20, x21, x22, x23, x24, x25, x26, x27, x28, x29, x30, x31]
     = r[off := x0, off + 1 := x1, off + 2 := x2, off + 3 := x3, off + 4 := x4, off + 5 := x5, off + 6 := x6, off + 7 := x7, off + 8 := x8, off + 9 := x9, off + 10 := x10, off + 11 := x11, off + 12 := x12, off + 13 := x13, off + 14 := x14, off + 15 := x15, off + 16 := x16, off + 17 := x17, off + 18 := x18, off + 19 := x19, off + 20 := x20, off + 21 := x21, off + 22 := x22, off + 23 := x23, off + 24 := x24, off + 25 := x25, off + 26 := x26, off + 27 := x27, off + 28 := x28, off + 29 := x29, off + 30 := x30, off + 31 := x31]"
  by (simp add: store_bytes_def upt_32 numeral_eq_Suc)

lemma avx2_shuffle:
  "mm256_shuffle_epi8 (load_bytes 32 bgra off) [2, 1, 0, 3, 6, 5, 4, 7, 10, 9, 8, 11, 14, 13, 12, 15, 2, 1, 0, 3, 6, 5, 4, 7, 10, 9, 8, 11, 14, 13, 12, 15]
     = [bgra ! (off + 2), bgra ! (off + 1), bgra ! (off + 0), bgra ! (off + 3), bgra ! (off + 6), bgra ! (off + 5), bgra ! (off + 4), bgra ! (off + 7), bgra ! (off + 10), bgra ! (off + 9), bgra ! (off + 8), bgra ! (off + 11), bgra ! (off + 14), bgra ! (off + 13), bgra ! (off + 12), bgra ! (off + 15), bgra ! (off + 18), bgra ! (off + 17), bgra ! (off + 16), bgra ! (off + 19), bgra ! (off + 22), bgra ! (off + 21), bgra ! (off + 20), bgra ! (off + 23), bgra ! (off + 26), bgra ! (off + 25), bgra ! (off + 24), bgra ! (off + 27), bgra ! (off + 30), bgra ! (off + 29), bgra ! (off + 28), bgra ! (off + 31)]"
  by (simp add: mm256_shuffle_epi8_def load_bytes_def upt_32)

lemma avx2_step:
  assumes "32 * k + 31 < 2 ^ 32"
  shows "store_bytes rgba (unat (of_nat (8 * k) * 4 :: u32))
           (mm256_shuffle_epi8 (load_bytes 32 bgra (unat (of_nat (8 * k) * 4 :: u32)))
              [2, 1, 0, 3, 6, 5, 4, 7, 10, 9, 8, 11, 14, 13, 12, 15, 2, 1, 0, 3, 6, 5, 4, 7, 10, 9, 8, 11, 14, 13, 12, 15])
         = foldl (\<lambda>rgba i. convert_pixel bgra rgba (of_nat i)) rgba
             [8 * k, 8 * k + 1, 8 * k + 2, 8 * k + 3, 8 * k + 4, 8 * k + 5, 8 * k + 6, 8 * k + 7]"
proof -
  have off: "unat (of_nat (8 * k) * 4 :: u32) = 32 * k"
    using pixel_index(1) [of "8 * k"] assms by simp
  have p: "4 * (8 * k) + 3 < 2 ^ 32" "4 * (8 * k + 1) + 3 < 2 ^ 32"
    "4 * (8 * k + 2) + 3 < 2 ^ 32" "4 * (8 * k + 3) + 3 < 2 ^ 32"
    "4 * (8 * k + 4) + 3 < 2 ^ 32" "4 * (8 * k + 5) + 3 < 2 ^ 32"
    "4 * (8 * k + 6) + 3 < 2 ^ 32" "4 * (8 * k + 7) + 3 < 2 ^ 32"
    using assms by simp_all
  show ?thesis
    unfolding off avx2_shuffle store_bytes_32 foldl.simps
      convert_pixel_nat [OF p(1)] convert_pixel_nat [OF p(2)]
      convert_pixel_nat [OF p(3)] convert_pixel_nat [OF p(4)]
      convert_pixel_nat [OF p(5)] convert_pixel_nat [OF p(6)]
      convert_pixel_nat [OF p(7)] convert_pixel_nat [OF p(8)]
    by (simp add: add.commute)
qed

lemma upt_eight_more:
  "[0 ..< 8 * Suc m] = [0 ..< 8 * m] @ [8 * m, 8 * m + 1, 8 * m + 2, 8 * m + 3,
                                         8 * m + 4, 8 * m + 5, 8 * m + 6, 8 * m + 7]"
proof -
  have "[0 ..< 8 * m + 8] = [0 ..< 8 * m] @ [8 * m ..< 8 * m + 8]"
    by (rule upt_add_eq_append) simp
  moreover have "[a ..< a + 8] = [a, a + 1, a + 2, a + 3, a + 4, a + 5, a + 6, a + 7]" for a :: nat
    by (simp add: numeral_eq_Suc upt_rec)
  ultimately have "[0 ..< 8 * m + 8] = [0 ..< 8 * m] @ [8 * m, 8 * m + 1, 8 * m + 2, 8 * m + 3,
                                         8 * m + 4, 8 * m + 5, 8 * m + 6, 8 * m + 7]"
    by (simp only:)
  moreover have "8 * Suc m = 8 * m + 8" by simp
  ultimately show ?thesis by (simp only:)
qed

lemma avx2_vector_loop:
  assumes "32 * m \<le> 2 ^ 32"
  shows "foldl (\<lambda>rgba k.
            store_bytes rgba (unat (of_nat (8 * k) * 4 :: u32))
              (mm256_shuffle_epi8 (load_bytes 32 bgra (unat (of_nat (8 * k) * 4 :: u32)))
                 [2, 1, 0, 3, 6, 5, 4, 7, 10, 9, 8, 11, 14, 13, 12, 15, 2, 1, 0, 3, 6, 5, 4, 7, 10, 9, 8, 11, 14, 13, 12, 15]))
           rgba [0 ..< m]
         = foldl (\<lambda>rgba i. convert_pixel bgra rgba (of_nat i)) rgba [0 ..< 8 * m]"
  using assms
proof (induction m)
  case 0
  show ?case by simp
next
  case (Suc m)
  from Suc.prems have k: "32 * m + 31 < 2 ^ 32" and m: "32 * m \<le> 2 ^ 32" by simp_all
  have u: "[0 ..< Suc m] = [0 ..< m] @ [m]" by simp
  show ?case
    unfolding upt_eight_more u foldl_append Suc.IH [OF m]
    by (simp only: foldl.simps avx2_step [OF k])
qed

lemma avx2_equals_scalar:
  assumes "4 * unat n \<le> 2 ^ 32"
  shows "ConvertBGRAToRGBA_AVX2 bgra rgba n = ConvertBGRAToRGBA_C bgra rgba n"
proof -
  define sp where "sp = n AND NOT 7"
  have sp: "unat sp = 8 * (unat n div 8)" unfolding sp_def by (rule unat_and_not_7)
  have le: "unat sp \<le> unat n" unfolding sp by (simp add: mult.commute div_times_less_eq_dividend)
  have b: "32 * (unat n div 8) \<le> 2 ^ 32"
  proof -
    have "8 * (unat n div 8) \<le> unat n" by (simp add: mult.commute div_times_less_eq_dividend)
    with assms show ?thesis by simp
  qed
  have "ConvertBGRAToRGBA_AVX2 bgra rgba n =
          scalar_loop bgra
            (foldl (\<lambda>rgba k.
                store_bytes rgba (unat (of_nat (8 * k) * 4 :: u32))
                  (mm256_shuffle_epi8 (load_bytes 32 bgra (unat (of_nat (8 * k) * 4 :: u32)))
                     [2, 1, 0, 3, 6, 5, 4, 7, 10, 9, 8, 11, 14, 13, 12, 15, 2, 1, 0, 3, 6, 5, 4, 7, 10, 9, 8, 11, 14, 13, 12, 15]))
               rgba [0 ..< unat n div 8])
            sp n"
    unfolding ConvertBGRAToRGBA_AVX2_def vector_loop_def Let_def sp_def [symmetric]
    by (simp add: sp)
  also have "\<dots> = scalar_loop bgra
            (foldl (\<lambda>rgba i. convert_pixel bgra rgba (of_nat i)) rgba [0 ..< unat sp]) sp n"
    by (simp only: avx2_vector_loop [OF b] sp)
  also have "\<dots> = ConvertBGRAToRGBA_C bgra rgba n"
    by (rule scalar_loop_split [OF le])
  finally show ?thesis .
qed

text \<open>
  C4. The SSE2 and AVX2 routines are the scalar routine in another form (the two lemmas
  above, for every pixel count whose byte size fits the 32-bit index arithmetic). The
  NEON routine is not. On five pixels (one vector of four and a tail of one) the scalar
  routine swaps the first and third byte of each pixel; in the NEON routine each of the
  four table look-ups uses index 0 as a filler, which selects lane 0 instead of zero,
  and the OR of the four look-ups mixes the channels. The first sixteen output bytes
  differ from the scalar ones; only the tail pixel, done by the scalar loop, agrees. The
  dispatcher takes the NEON path on ARM.
\<close>

theorem neon_differs_from_scalar:
  "ConvertBGRAToRGBA_C five_pixels (replicate 20 0) 5
     = [4, 2, 1, 8,  64, 32, 16, 128,  9, 5, 3, 17,  18, 10, 6, 34,  13, 11, 7, 14] \<and>
   ConvertBGRAToRGBA_NEON five_pixels (replicate 20 0) 5
     = [15, 45, 15, 39,  240, 240, 240, 240,  31, 31, 31, 31,  62, 62, 62, 62,  13, 11, 7, 14] \<and>
   ConvertBGRAToRGBA arm_cpu (Some five_pixels) (Some (replicate 20 0)) 5
     = Some [15, 45, 15, 39,  240, 240, 240, 240,  31, 31, 31, 31,  62, 62, 62, 62,  13, 11, 7, 14] \<and>
   ConvertBGRAToRGBA_SSE2 five_pixels (replicate 20 0) 5
     = ConvertBGRAToRGBA_C five_pixels (replicate 20 0) 5"
  by code_simp

end
